theory Spec2Isabelle
  imports Complex_Main
begin

section \<open>Python values shared by the models\<close>

text \<open>
  Timestamps (\<^verbatim>\<open>time.time()\<close>), durations and token counts are Python floats; they are
  modelled as real numbers. Every call of \<^verbatim>\<open>time.time()\<close> is an argument of the
  modelled function, in the order in which the source reads the clock.
  Exceptions are values: a function that can raise returns \<open>py_error + 'a\<close>.
\<close>

datatype py_error =
    KeyError
  | ZeroDivisionError
  | TimeoutError
  | PageError
  | DisambiguationError "string list"
  | LLMError string
  | Exception string

section \<open>Python strings\<close>

text \<open>
  A \<^verbatim>\<open>str\<close> is a sequence of code points, and \<^verbatim>\<open>len\<close>, slicing and the regular
  expressions of the source count code points. A string is modelled as a HOL
  \<open>string\<close> with one \<open>char\<close> per code point, which covers the texts whose code points
  lie below 256; on these, the character classes and the case mapping of Python are
  the ones defined here.
\<close>

definition code :: "char \<Rightarrow> nat" where
  "code c = of_char c"

text \<open>\<^verbatim>\<open>str.isspace\<close>, which is also the class \<^verbatim>\<open>\s\<close> of \<^verbatim>\<open>re\<close>.\<close>

definition isspace :: "char \<Rightarrow> bool" where
  "isspace c \<longleftrightarrow>
     (9 \<le> code c \<and> code c \<le> 13) \<or> (28 \<le> code c \<and> code c \<le> 32)
     \<or> code c = 133 \<or> code c = 160"

text \<open>The class \<^verbatim>\<open>\d\<close>: the decimal digits.\<close>

definition isdigit :: "char \<Rightarrow> bool" where
  "isdigit c \<longleftrightarrow> 48 \<le> code c \<and> code c \<le> 57"

text \<open>The class \<^verbatim>\<open>\w\<close>: the alphanumeric characters and the underscore.\<close>

definition isword :: "char \<Rightarrow> bool" where
  "isword c \<longleftrightarrow>
     (48 \<le> code c \<and> code c \<le> 57) \<or> (65 \<le> code c \<and> code c \<le> 90)
     \<or> code c = 95 \<or> (97 \<le> code c \<and> code c \<le> 122)
     \<or> code c = 170 \<or> code c = 178 \<or> code c = 179 \<or> code c = 181
     \<or> code c = 185 \<or> code c = 186 \<or> (188 \<le> code c \<and> code c \<le> 190)
     \<or> (192 \<le> code c \<and> code c \<le> 214) \<or> (216 \<le> code c \<and> code c \<le> 246)
     \<or> 248 \<le> code c"

text \<open>\<^verbatim>\<open>str.lower\<close>: the upper-case letters and their lower-case forms, in order.\<close>

definition upper_letters :: string where
  "upper_letters = ''ABCDEFGHIJKLMNOPQRSTUVWXYZ'' @
     [CHR 0xC0, CHR 0xC1, CHR 0xC2, CHR 0xC3, CHR 0xC4, CHR 0xC5, CHR 0xC6, CHR 0xC7,
      CHR 0xC8, CHR 0xC9, CHR 0xCA, CHR 0xCB, CHR 0xCC, CHR 0xCD, CHR 0xCE, CHR 0xCF,
      CHR 0xD0, CHR 0xD1, CHR 0xD2, CHR 0xD3, CHR 0xD4, CHR 0xD5, CHR 0xD6,
      CHR 0xD8, CHR 0xD9, CHR 0xDA, CHR 0xDB, CHR 0xDC, CHR 0xDD, CHR 0xDE]"

definition lower_letters :: string where
  "lower_letters = ''abcdefghijklmnopqrstuvwxyz'' @
     [CHR 0xE0, CHR 0xE1, CHR 0xE2, CHR 0xE3, CHR 0xE4, CHR 0xE5, CHR 0xE6, CHR 0xE7,
      CHR 0xE8, CHR 0xE9, CHR 0xEA, CHR 0xEB, CHR 0xEC, CHR 0xED, CHR 0xEE, CHR 0xEF,
      CHR 0xF0, CHR 0xF1, CHR 0xF2, CHR 0xF3, CHR 0xF4, CHR 0xF5, CHR 0xF6,
      CHR 0xF8, CHR 0xF9, CHR 0xFA, CHR 0xFB, CHR 0xFC, CHR 0xFD, CHR 0xFE]"

definition lower_char :: "char \<Rightarrow> char" where
  "lower_char c = (case map_of (zip upper_letters lower_letters) c of Some l \<Rightarrow> l | None \<Rightarrow> c)"

definition lower :: "string \<Rightarrow> string" where
  "lower s = map lower_char s"

text \<open>\<^verbatim>\<open>s.startswith(p)\<close> and \<^verbatim>\<open>p in s\<close>.\<close>

definition startswith :: "string \<Rightarrow> string \<Rightarrow> bool" where
  "startswith s p \<longleftrightarrow> take (length p) s = p"

fun contains :: "string \<Rightarrow> string \<Rightarrow> bool" where
  "contains p [] = (p = [])"
| "contains p (c # s) = (startswith (c # s) p \<or> contains p s)"

text \<open>\<^verbatim>\<open>s.strip()\<close>, \<^verbatim>\<open>s.split()\<close> and \<^verbatim>\<open>sep.join(xs)\<close>.\<close>

definition strip :: "string \<Rightarrow> string" where
  "strip s = rev (dropWhile isspace (rev (dropWhile isspace s)))"

fun split_ws :: "string \<Rightarrow> string \<Rightarrow> string list" where
  "split_ws cur [] = (if cur = [] then [] else [cur])"
| "split_ws cur (c # s) =
     (if isspace c then (if cur = [] then split_ws [] s else cur # split_ws [] s)
      else split_ws (cur @ [c]) s)"

definition split :: "string \<Rightarrow> string list" where
  "split s = split_ws [] s"

fun join :: "string \<Rightarrow> string list \<Rightarrow> string" where
  "join sep [] = []"
| "join sep [x] = x"
| "join sep (x # y # ys) = x @ sep @ join sep (y # ys)"

text \<open>The newline, and \<^verbatim>\<open>s.split('\n\n')\<close>: the pieces between blank lines.\<close>

definition newline :: char where
  "newline = CHR 0x0A"

fun split_blank :: "string \<Rightarrow> string \<Rightarrow> string list" where
  "split_blank cur (c # d # s) =
     (if c = newline \<and> d = newline then cur # split_blank [] s
      else split_blank (cur @ [c]) (d # s))"
| "split_blank cur s = [cur @ s]"

text \<open>\<^verbatim>\<open>str(n)\<close> for an integer.\<close>

fun str_nat :: "nat \<Rightarrow> string" where
  "str_nat n =
     (if n < 10 then [''0123456789'' ! n]
      else str_nat (n div 10) @ [''0123456789'' ! (n mod 10)])"

declare str_nat.simps [simp del]

definition str_int :: "int \<Rightarrow> string" where
  "str_int i = (if i < 0 then CHR ''-'' # str_nat (nat (- i)) else str_nat (nat i))"

text \<open>
  \<^verbatim>\<open>re.sub(pattern, repl, s)\<close> for a pattern that matches no empty string. The
  matcher returns the text after the match that starts at the head of its argument, if
  there is one. Matches are replaced from left to right; where none starts, the
  character is kept.
\<close>

function re_sub :: "(string \<Rightarrow> string option) \<Rightarrow> string \<Rightarrow> string \<Rightarrow> string" where
  "re_sub m r [] = []"
| "re_sub m r (c # s) =
     (case m (c # s) of
        None \<Rightarrow> c # re_sub m r s
      | Some rest \<Rightarrow>
          if length rest < length (c # s) then r @ re_sub m r rest
          else c # re_sub m r s)"
  by pat_completeness auto
termination
  by (relation "measure (\<lambda>(m, r, s). length s)") auto

section \<open>The token bucket: \<^verbatim>\<open>RateLimiter\<close> in llm.py\<close>

record RateLimiter =
  rate :: real
  per :: real
  burst :: real
  tokens :: real
  last_refill :: real

text \<open>\<^verbatim>\<open>RateLimiter.__init__\<close>: the bucket starts full; \<open>now\<close> is the clock reading.\<close>

definition RateLimiter_init :: "real \<Rightarrow> real \<Rightarrow> real \<Rightarrow> real \<Rightarrow> RateLimiter" where
  "RateLimiter_init r p b now =
     \<lparr>rate = r, per = p, burst = b, tokens = b, last_refill = now\<rparr>"

text \<open>
  The refill statement of \<^verbatim>\<open>acquire\<close>. Python evaluates \<^verbatim>\<open>self.rate / self.per\<close>
  before any assignment, so a zero period raises with the state untouched.
\<close>

definition refill :: "real \<Rightarrow> RateLimiter \<Rightarrow> RateLimiter" where
  "refill now rl =
     rl\<lparr>tokens := min (burst rl) (tokens rl + (now - last_refill rl) * (rate rl / per rl)),
        last_refill := now\<rparr>"

text \<open>
  \<^verbatim>\<open>RateLimiter.acquire\<close>: the result is the returned wait (or the exception) and the
  limiter after the call. A zero rate raises in the shortfall branch, after the refill
  has been stored.
\<close>

definition acquire :: "real \<Rightarrow> real \<Rightarrow> RateLimiter \<Rightarrow> (py_error + real) \<times> RateLimiter" where
  "acquire now cost rl =
     (if per rl = 0 then (Inl ZeroDivisionError, rl)
      else
        let rl1 = refill now rl in
        if tokens rl1 < cost then
          (if rate rl1 = 0 then (Inl ZeroDivisionError, rl1)
           else (Inr ((cost - tokens rl1) * (per rl1 / rate rl1)), rl1))
        else (Inr 0, rl1\<lparr>tokens := tokens rl1 - cost\<rparr>))"

text \<open>
  A sequence of calls, each a pair of the clock reading and the requested cost; the
  result lists the limiter after every call. The limiter lives on after a call that
  raised.
\<close>

fun acquire_trace :: "(real \<times> real) list \<Rightarrow> RateLimiter \<Rightarrow> RateLimiter list" where
  "acquire_trace [] rl = []"
| "acquire_trace ((now, cost) # cs) rl =
     (let rl' = snd (acquire now cost rl) in rl' # acquire_trace cs rl')"

definition tokens_in_range :: "RateLimiter \<Rightarrow> bool" where
  "tokens_in_range rl \<longleftrightarrow> 0 \<le> tokens rl \<and> tokens rl \<le> burst rl"

text \<open>The clock never runs backwards over the readings \<open>t0, t1, ...\<close>.\<close>

fun clock_ok :: "real \<Rightarrow> real list \<Rightarrow> bool" where
  "clock_ok t [] = True"
| "clock_ok t (u # us) = (t \<le> u \<and> clock_ok u us)"

text \<open>
  The admission rule in the words of the specification: refill by the elapsed time
  times \<open>rate / period\<close>, capped at the burst capacity; with enough tokens deduct the
  cost and return zero, otherwise return the time needed for the shortfall and deduct
  nothing.
\<close>

definition acquire_spec :: "real \<Rightarrow> real \<Rightarrow> RateLimiter \<Rightarrow> (py_error + real) \<times> RateLimiter" where
  "acquire_spec now cost rl =
     (let refilled = min (burst rl) (tokens rl + (now - last_refill rl) * (rate rl / per rl))
      in if cost \<le> refilled
         then (Inr 0, rl\<lparr>tokens := refilled - cost, last_refill := now\<rparr>)
         else (Inr ((cost - refilled) * (per rl / rate rl)),
               rl\<lparr>tokens := refilled, last_refill := now\<rparr>))"

section \<open>Python dictionaries\<close>

text \<open>
  A \<^verbatim>\<open>dict\<close> keeps its keys in insertion order, and \<^verbatim>\<open>min\<close> over its items returns
  the first minimal item in that order, so a dictionary is an association list with
  distinct keys: assignment to a present key replaces the value in place, assignment to
  a new key appends, \<^verbatim>\<open>del\<close> removes the pair.
\<close>

type_synonym ('k, 'v) dict = "('k \<times> 'v) list"

definition keys :: "('k, 'v) dict \<Rightarrow> 'k set" where
  "keys d = fst ` set d"

fun dict_set :: "('k, 'v) dict \<Rightarrow> 'k \<Rightarrow> 'v \<Rightarrow> ('k, 'v) dict" where
  "dict_set [] k v = [(k, v)]"
| "dict_set (p # d) k v = (if fst p = k then (k, v) # d else p # dict_set d k v)"

definition dict_del :: "('k, 'v) dict \<Rightarrow> 'k \<Rightarrow> ('k, 'v) dict" where
  "dict_del d k = filter (\<lambda>p. fst p \<noteq> k) d"

text \<open>
  \<^verbatim>\<open>min(d.items(), key=lambda x: x[1])\<close> on a non-empty dictionary: the running best
  item is replaced only by a strictly smaller one.
\<close>

fun min_item :: "'k \<times> real \<Rightarrow> ('k, real) dict \<Rightarrow> 'k \<times> real" where
  "min_item best [] = best"
| "min_item best (p # d) = min_item (if snd p < snd best then p else best) d"

section \<open>The bounded cache: \<^verbatim>\<open>KnowledgeCache\<close> in knowledge.py\<close>

record 'v entry =
  stored :: 'v
  expires :: real

record ('k, 'v) KnowledgeCache =
  cache :: "('k, 'v entry) dict"
  max_size :: int
  ttl :: real
  access_times :: "('k, real) dict"

definition KnowledgeCache_init :: "int \<Rightarrow> real \<Rightarrow> ('k, 'v) KnowledgeCache" where
  "KnowledgeCache_init m t = \<lparr>cache = [], max_size = m, ttl = t, access_times = []\<rparr>"

text \<open>
  \<^verbatim>\<open>KnowledgeCache.get\<close>. \<open>t_check\<close> is the clock reading compared with the expiry,
  \<open>t_access\<close> the later reading stored as the access time. The result \<open>None\<close> is
  Python's \<^verbatim>\<open>None\<close>.
\<close>

definition KnowledgeCache_get ::
  "real \<Rightarrow> real \<Rightarrow> 'k \<Rightarrow> ('k, 'v) KnowledgeCache \<Rightarrow> 'v option \<times> ('k, 'v) KnowledgeCache" where
  "KnowledgeCache_get t_check t_access key c =
     (case map_of (cache c) key of
        None \<Rightarrow> (None, c)
      | Some e \<Rightarrow>
          if t_check < expires e
          then (Some (stored e), c\<lparr>access_times := dict_set (access_times c) key t_access\<rparr>)
          else (None, c\<lparr>cache := dict_del (cache c) key,
                         access_times := dict_del (access_times c) key\<rparr>))"

text \<open>
  \<^verbatim>\<open>KnowledgeCache._evict_lru\<close>. \<^verbatim>\<open>del self.cache[lru_key]\<close> raises \<^verbatim>\<open>KeyError\<close> for
  a key the cache does not hold, before anything is removed.
\<close>

definition lru_key :: "('k, real) dict \<Rightarrow> 'k" where
  "lru_key d = fst (min_item (hd d) (tl d))"

definition evict_lru :: "('k, 'v) KnowledgeCache \<Rightarrow> py_error + ('k, 'v) KnowledgeCache" where
  "evict_lru c =
     (if access_times c = [] then Inr c
      else
        let k = lru_key (access_times c) in
        if k \<notin> keys (cache c) then Inl KeyError
        else Inr (c\<lparr>cache := dict_del (cache c) k,
                     access_times := dict_del (access_times c) k\<rparr>))"

text \<open>
  \<^verbatim>\<open>ttl or self.ttl\<close>: the default replaces a missing and a zero time-to-live.
\<close>

definition ttl_or_default :: "real option \<Rightarrow> real \<Rightarrow> real" where
  "ttl_or_default t dflt = (case t of None \<Rightarrow> dflt | Some x \<Rightarrow> if x = 0 then dflt else x)"

text \<open>
  \<^verbatim>\<open>KnowledgeCache.set\<close>. \<open>t_expiry\<close> is the clock reading added to the time-to-live,
  \<open>t_access\<close> the later reading stored as the access time.
\<close>

definition KnowledgeCache_set ::
  "real \<Rightarrow> real \<Rightarrow> 'k \<Rightarrow> 'v \<Rightarrow> real option \<Rightarrow> ('k, 'v) KnowledgeCache
     \<Rightarrow> py_error + ('k, 'v) KnowledgeCache" where
  "KnowledgeCache_set t_expiry t_access key v t c =
     (case (if max_size c \<le> int (length (cache c)) then evict_lru c else Inr c) of
        Inl err \<Rightarrow> Inl err
      | Inr c1 \<Rightarrow>
          Inr (c1\<lparr>cache := dict_set (cache c1) key
                      \<lparr>stored = v, expires = t_expiry + ttl_or_default t (ttl c1)\<rparr>,
                  access_times := dict_set (access_times c1) key t_access\<rparr>))"

definition KnowledgeCache_clear :: "('k, 'v) KnowledgeCache \<Rightarrow> ('k, 'v) KnowledgeCache" where
  "KnowledgeCache_clear c = c\<lparr>cache := [], access_times := []\<rparr>"

text \<open>
  The state of a cache object: both dictionaries have distinct keys, and the same keys.
\<close>

definition kc_inv :: "('k, 'v) KnowledgeCache \<Rightarrow> bool" where
  "kc_inv c \<longleftrightarrow>
     distinct (map fst (cache c)) \<and> distinct (map fst (access_times c))
     \<and> keys (cache c) = keys (access_times c)"

text \<open>The calls a client can make; a \<^verbatim>\<open>set\<close> that raises leaves the object as it was.\<close>

datatype ('k, 'v) cache_call =
    Get real real 'k
  | Set real real 'k 'v "real option"
  | Clear

fun call :: "('k, 'v) cache_call \<Rightarrow> ('k, 'v) KnowledgeCache \<Rightarrow> ('k, 'v) KnowledgeCache" where
  "call (Get t1 t2 k) c = snd (KnowledgeCache_get t1 t2 k c)"
| "call (Set t1 t2 k v t) c =
     (case KnowledgeCache_set t1 t2 k v t c of Inl err \<Rightarrow> c | Inr c' \<Rightarrow> c')"
| "call Clear c = KnowledgeCache_clear c"

fun calls :: "('k, 'v) cache_call list \<Rightarrow> ('k, 'v) KnowledgeCache \<Rightarrow> ('k, 'v) KnowledgeCache" where
  "calls [] c = c"
| "calls (x # xs) c = calls xs (call x c)"

text \<open>Storing a list of items one after the other; the first exception ends the run.\<close>

fun set_all ::
  "(real \<times> real \<times> 'k \<times> 'v \<times> real option) list \<Rightarrow> ('k, 'v) KnowledgeCache
     \<Rightarrow> py_error + ('k, 'v) KnowledgeCache" where
  "set_all [] c = Inr c"
| "set_all ((t1, t2, k, v, t) # xs) c =
     (case KnowledgeCache_set t1 t2 k v t c of
        Inl err \<Rightarrow> Inl err
      | Inr c' \<Rightarrow> set_all xs c')"

text \<open>The state \<^verbatim>\<open>set\<close> builds from a cache \<open>c\<close> once room has been made.\<close>

definition store ::
  "real \<Rightarrow> real \<Rightarrow> 'k \<Rightarrow> 'v \<Rightarrow> real option \<Rightarrow> ('k, 'v) KnowledgeCache \<Rightarrow> ('k, 'v) KnowledgeCache" where
  "store t_expiry t_access key v t c =
     c\<lparr>cache := dict_set (cache c) key
                  \<lparr>stored = v, expires = t_expiry + ttl_or_default t (ttl c)\<rparr>,
       access_times := dict_set (access_times c) key t_access\<rparr>"

definition evicted :: "'k \<Rightarrow> ('k, 'v) KnowledgeCache \<Rightarrow> ('k, 'v) KnowledgeCache" where
  "evicted k c = c\<lparr>cache := dict_del (cache c) k, access_times := dict_del (access_times c) k\<rparr>"

definition item_key :: "real \<times> real \<times> 'k \<times> 'v \<times> real option \<Rightarrow> 'k" where
  "item_key x = fst (snd (snd x))"

text \<open>The capacity bound, with the state of the object.\<close>

definition bounded :: "('k, 'v) KnowledgeCache \<Rightarrow> bool" where
  "bounded c \<longleftrightarrow> kc_inv c \<and> int (length (cache c)) \<le> max_size c"

section \<open>The knowledge aggregator: \<^verbatim>\<open>ChatManager._retrieve_knowledge\<close> in conversation.py\<close>

text \<open>
  A knowledge result is a pair of a title and a text. The two provider calls run as
  tasks; \<^verbatim>\<open>asyncio.wait\<close> hands back the set of the tasks that finished before the
  deadline, each of which either returns a result or raises when awaited, and the
  tasks still pending, which are cancelled and contribute nothing. The finished tasks
  are a list here, in the order in which the loop meets them.
\<close>

type_synonym knowledge = "string \<times> string"

datatype task = WikiTask | KbTask

type_synonym finished = "(task \<times> (py_error + knowledge)) list"

text \<open>
  The loop over \<^verbatim>\<open>done\<close>: the state is the pair of the Wikipedia and the knowledge-base
  result, both \<^verbatim>\<open>("", "")\<close> at the start; a task that raises is logged and skipped.
\<close>

fun collect :: "finished \<Rightarrow> knowledge \<times> knowledge \<Rightarrow> knowledge \<times> knowledge" where
  "collect [] acc = acc"
| "collect ((t, Inl err) # ds) acc = collect ds acc"
| "collect ((WikiTask, Inr r) # ds) (wiki, kb) = collect ds (r, kb)"
| "collect ((KbTask, Inr r) # ds) (wiki, kb) = collect ds (wiki, r)"

text \<open>The choice among the collected results: a non-empty string is true.\<close>

definition best_available :: "knowledge \<times> knowledge \<Rightarrow> knowledge" where
  "best_available acc =
     (case acc of (wiki, kb) \<Rightarrow>
        if snd kb \<noteq> [] then kb
        else if snd wiki \<noteq> [] then wiki
        else ([], []))"

text \<open>
  The function: the argument is what \<^verbatim>\<open>asyncio.wait\<close> does, raise or hand back the
  finished tasks. The outer handler turns every exception of the body into the empty
  result.
\<close>

definition retrieve_knowledge_body :: "py_error + finished \<Rightarrow> py_error + knowledge" where
  "retrieve_knowledge_body waited =
     (case waited of
        Inl err \<Rightarrow> Inl err
      | Inr ds \<Rightarrow> Inr (best_available (collect ds (([], []), ([], [])))))"

definition retrieve_knowledge :: "py_error + finished \<Rightarrow> py_error + knowledge" where
  "retrieve_knowledge waited =
     (case retrieve_knowledge_body waited of
        Inl err \<Rightarrow> Inr ([], [])
      | Inr r \<Rightarrow> Inr r)"

text \<open>
  The selection policy in the words of the specification, over what each provider
  contributes: its result, or the empty result when it raised.
\<close>

definition contribution :: "py_error + knowledge \<Rightarrow> knowledge" where
  "contribution x = (case x of Inl err \<Rightarrow> ([], []) | Inr r \<Rightarrow> r)"

definition selection_policy :: "knowledge \<Rightarrow> knowledge \<Rightarrow> knowledge" where
  "selection_policy static encyclopedic =
     (if snd static \<noteq> [] then static
      else if snd encyclopedic \<noteq> [] then encyclopedic
      else ([], []))"

section \<open>The generation client: \<^verbatim>\<open>CohereClient.chat\<close> in llm.py\<close>

text \<open>
  \<^verbatim>\<open>_get_fallback_responses\<close>: the table of topic keywords and their fallback texts, in
  the order of the dictionary literal.
\<close>

definition fallback_responses :: "(string, string) dict" where
  "fallback_responses =
   [
    (''sport'',
       ''I know that sports are a popular topic. However, I'm having trouble '' @
       ''accessing my knowledge services right now. Sports include activities '' @
       ''like football, basketball, cricket, tennis, and many others with '' @
       ''different rules, competitions, and famous athletes.''),
    (''health'',
       ''Health is an important topic, but I'm having trouble accessing my '' @
       ''knowledge services right now. For health-related questions, it's '' @
       ''always best to consult with qualified healthcare professionals for '' @
       ''personalized advice.''),
    (''technology'',
       ''Technology is evolving rapidly across areas like AI, software '' @
       ''development, hardware, and digital services. While I'm having trouble '' @
       ''connecting to my knowledge services right now, I'd be happy to try '' @
       ''answering a more specific question about technology.''),
    (''history'',
       ''Historical topics span thousands of years of human civilization, '' @
       ''covering people, events, and societal developments. I'm having trouble'' @
       '' accessing detailed historical information right now, but I'd be happy'' @
       '' to try again in a moment.''),
    (''science'',
       ''Science encompasses fields like physics, chemistry, biology, '' @
       ''astronomy, and more. I'm having trouble connecting to my knowledge '' @
       ''services right now, but I'd be happy to try a more specific scientific'' @
       '' question shortly.''),
    (''code'',
       ''Programming involves creating instructions for computers using '' @
       ''languages like Python, JavaScript, Java, and many others. I'm having '' @
       ''trouble accessing my coding knowledge right now, but I'd be happy to '' @
       ''help with a specific coding problem in a moment.''),
    (''music'',
       ''Music spans countless genres, artists, and traditions from around the '' @
       ''world. I'm having trouble accessing my detailed music knowledge right '' @
       ''now, but I'd be happy to try again with a more specific question '' @
       ''shortly.''),
    (''movie'',
       ''Films and cinema encompass a vast variety of genres, directors, '' @
       ''actors, and storytelling techniques. I'm having trouble connecting to '' @
       ''my knowledge services right now, but I'd be happy to discuss movies '' @
       ''again in a moment.''),
    (''game'',
       ''Games include video games, board games, card games, and many other '' @
       ''forms of interactive entertainment. I'm having trouble accessing my '' @
       ''gaming knowledge right now, but I'd be happy to try again shortly.'')
   ]"

text \<open>
  The scan of the table: the text of the first keyword, in table order, that the
  lower-cased message contains.
\<close>

fun first_fallback :: "string \<Rightarrow> (string, string) dict \<Rightarrow> string option" where
  "first_fallback message_lower [] = None"
| "first_fallback message_lower ((key, fallback) # rest) =
     (if contains key message_lower then Some fallback
      else first_fallback message_lower rest)"

text \<open>
  One call of the upstream client either raises, with the text of the exception, or
  responds with a text. \<open>client n\<close> is the outcome of the call made after \<open>n\<close>
  failures. A call of \<^verbatim>\<open>chat\<close> returns a text, or the response object itself when
  streaming.
\<close>

datatype upstream = Failed string | Responded string

datatype chat_value = Text string | Stream string

definition retry_backoff :: "nat list" where
  "retry_backoff = [1, 2, 4, 8]"

text \<open>
  The retry loop of \<^verbatim>\<open>chat\<close>: \<open>retries\<close> counts the failures so far. After the
  last permitted retry the fallback table is scanned, and \<^verbatim>\<open>LLMError\<close> is raised when
  no keyword matches.
\<close>

function chat_attempts ::
  "(nat \<Rightarrow> upstream) \<Rightarrow> bool \<Rightarrow> string \<Rightarrow> nat \<Rightarrow> nat \<Rightarrow> py_error + chat_value" where
  "chat_attempts client stream message max_retries retries =
     (case client retries of
        Responded text \<Rightarrow> Inr (if stream then Stream text else Text text)
      | Failed e \<Rightarrow>
          if retries < max_retries
          then chat_attempts client stream message max_retries (Suc retries)
          else (case first_fallback (lower message) fallback_responses of
                  Some fallback \<Rightarrow> Inr (Text fallback)
                | None \<Rightarrow> Inl (LLMError (''Error in chat response: '' @ e))))"
  by pat_completeness auto
termination
  by (relation "measure (\<lambda>(client, stream, message, max_retries, retries). max_retries - retries)")
    auto

declare chat_attempts.simps [simp del]

text \<open>
  \<^verbatim>\<open>CohereClient.chat\<close>. The rate limiter of the client, built with rate 20, period 60
  and burst 30, only delays the call. \<open>cached\<close> is what the lookup in the response
  cache returns; it is consulted unless streaming, and a non-empty cached text is
  returned at once. Otherwise the retry loop runs; the text it returns is also stored
  in the response cache, which the value returned does not depend on.
\<close>

definition chat ::
  "(nat \<Rightarrow> upstream) \<Rightarrow> string option \<Rightarrow> string \<Rightarrow> bool \<Rightarrow> bool \<Rightarrow> py_error + chat_value" where
  "chat client cached message stream retry_on_error =
     (let max_retries = (if retry_on_error then length retry_backoff else 0) in
      case (if stream then None else cached) of
        None \<Rightarrow> chat_attempts client stream message max_retries 0
      | Some r \<Rightarrow>
          if r \<noteq> [] then Inr (Text r)
          else chat_attempts client stream message max_retries 0)"

text \<open>The outcome of the scan after the last failure \<open>e\<close>.\<close>

definition fallback_or_raise :: "string \<Rightarrow> string \<Rightarrow> py_error + chat_value" where
  "fallback_or_raise message e =
     (case first_fallback (lower message) fallback_responses of
        Some fallback \<Rightarrow> Inr (Text fallback)
      | None \<Rightarrow> Inl (LLMError (''Error in chat response: '' @ e)))"

text \<open>The keywords of the table that precede \<open>key\<close>.\<close>

definition keys_before :: "string \<Rightarrow> (string, string) dict \<Rightarrow> string list" where
  "keys_before key d = takeWhile (\<lambda>k. k \<noteq> key) (map fst d)"

section \<open>The encyclopedic provider: \<^verbatim>\<open>WikipediaService\<close> in knowledge.py\<close>

subsection \<open>The regular expressions of \<^verbatim>\<open>_clean_content\<close> and \<^verbatim>\<open>_clean_query\<close>\<close>

text \<open>\<^verbatim>\<open>\[\d+\]\<close>: a bracket, one or more digits, a closing bracket.\<close>

definition match_ref :: "string \<Rightarrow> string option" where
  "match_ref s =
     (case s of
        [] \<Rightarrow> None
      | c # t \<Rightarrow>
          if c = CHR ''[''
          then (let rest = dropWhile isdigit t in
                if takeWhile isdigit t \<noteq> [] \<and> rest \<noteq> [] \<and> hd rest = CHR '']''
                then Some (tl rest) else None)
          else None)"

text \<open>\<^verbatim>\<open>\s+\<close>: a longest run of white space.\<close>

definition match_spaces :: "string \<Rightarrow> string option" where
  "match_spaces s =
     (case s of
        [] \<Rightarrow> None
      | c # t \<Rightarrow> if isspace c then Some (dropWhile isspace t) else None)"

text \<open>
  \<^verbatim>\<open>==.*?==\<close>: two equals signs, then as few characters as possible, none of them a
  newline, up to the next two equals signs.
\<close>

fun until_marker :: "string \<Rightarrow> string option" where
  "until_marker (c # d # s) =
     (if c = CHR ''='' \<and> d = CHR ''='' then Some s
      else if c = newline then None
      else until_marker (d # s))"
| "until_marker s = None"

definition match_marker :: "string \<Rightarrow> string option" where
  "match_marker s =
     (case s of
        c # d # t \<Rightarrow> if c = CHR ''='' \<and> d = CHR ''='' then until_marker t else None
      | _ \<Rightarrow> None)"

text \<open>\<^verbatim>\<open>WikipediaService._clean_content\<close>.\<close>

definition clean_content :: "string \<Rightarrow> string" where
  "clean_content content =
     strip (re_sub match_marker [] (re_sub match_spaces '' '' (re_sub match_ref [] content)))"

text \<open>
  \<^verbatim>\<open>WikipediaService._clean_query\<close>. The first substitution is anchored at the start:
  the first of the question phrases that begins the query and is followed by white
  space is removed together with that white space.
\<close>

definition question_phrases :: "string list" where
  "question_phrases =
     [''what is'', ''who is'', ''tell me about'', ''how does'', ''where is'', ''when did'',
      ''why does'', ''can you explain'']"

fun strip_question :: "string list \<Rightarrow> string \<Rightarrow> string" where
  "strip_question [] q = q"
| "strip_question (p # ps) q =
     (if startswith q p \<and> drop (length p) q \<noteq> [] \<and> isspace (hd (drop (length p) q))
      then dropWhile isspace (drop (length p) q)
      else strip_question ps q)"

definition clean_query :: "string \<Rightarrow> string" where
  "clean_query query =
     join '' '' (split (filter (\<lambda>c. isword c \<or> isspace c)
       (strip_question question_phrases (lower query))))"

subsection \<open>The service\<close>

text \<open>
  The cache of the service holds lists of titles, stored by \<^verbatim>\<open>search\<close>, and texts,
  stored by \<^verbatim>\<open>get_page_summary\<close>. The tests \<^verbatim>\<open>if cached_result:\<close> and
  \<^verbatim>\<open>if cached_summary:\<close> take the truth value of what the cache returns: \<^verbatim>\<open>None\<close>,
  the empty list and the empty string are false.
\<close>

datatype wiki_value = Titles "string list" | Summary string

fun truthy :: "wiki_value option \<Rightarrow> bool" where
  "truthy None = False"
| "truthy (Some (Titles ts)) = (ts \<noteq> [])"
| "truthy (Some (Summary s)) = (s \<noteq> [])"

record WikipediaService =
  timeout :: real
  wiki_cache :: "(string, wiki_value) KnowledgeCache"

definition WikipediaService_init :: "real \<Rightarrow> WikipediaService" where
  "WikipediaService_init t = \<lparr>timeout = t, wiki_cache = KnowledgeCache_init 500 86400\<rparr>"

text \<open>
  The result of a call of the service: the value returned, the number of calls it made
  to the \<^verbatim>\<open>wikipedia\<close> package, and the service after the call.
\<close>

record 'a served =
  returned :: 'a
  upstream_calls :: nat
  service :: WikipediaService

text \<open>The loop of \<^verbatim>\<open>search\<close> that keeps the first three titles that are no disambiguation pages.\<close>

fun filter_titles :: "string list \<Rightarrow> string list \<Rightarrow> string list" where
  "filter_titles filtered [] = filtered"
| "filter_titles filtered (title # ts) =
     (if 3 \<le> length filtered then filtered
      else if contains ''(disambiguation)'' (lower title) then filter_titles filtered ts
      else filter_titles (filtered @ [title]) ts)"

text \<open>The cache keys \<^verbatim>\<open>f"search_{cleaned_query}_{limit}"\<close> and \<^verbatim>\<open>f"summary_{title}_{sentences}"\<close>.\<close>

definition search_cache_key :: "string \<Rightarrow> int \<Rightarrow> string" where
  "search_cache_key cleaned_query limit = ''search_'' @ cleaned_query @ ''_'' @ str_int limit"

definition summary_cache_key :: "string \<Rightarrow> int \<Rightarrow> string" where
  "summary_cache_key title sentences = ''summary_'' @ title @ ''_'' @ str_int sentences"

text \<open>
  \<^verbatim>\<open>WikipediaService.search\<close>. \<open>upstream\<close> is what \<^verbatim>\<open>wikipedia.search\<close> does under
  the timeout if it is called: raise, or return titles. \<open>tg\<close> are the two clock readings
  of the cache lookup, \<open>ts\<close> those of the cache update. Every exception after the
  lookup is answered with the empty list.
\<close>

definition search ::
  "py_error + string list \<Rightarrow> real \<times> real \<Rightarrow> real \<times> real \<Rightarrow> string \<Rightarrow> int
     \<Rightarrow> WikipediaService \<Rightarrow> wiki_value served" where
  "search upstream tg ts query limit svc =
     (if query = [] \<or> strip query = []
      then \<lparr>returned = Titles [], upstream_calls = 0, service = svc\<rparr>
      else
        let cleaned_query = clean_query query;
            cache_key = search_cache_key cleaned_query limit;
            (cached_result, c1) = KnowledgeCache_get (fst tg) (snd tg) cache_key (wiki_cache svc);
            svc1 = svc\<lparr>wiki_cache := c1\<rparr>
        in if truthy cached_result
           then \<lparr>returned = the cached_result, upstream_calls = 0, service = svc1\<rparr>
           else
             (case upstream of
                Inl err \<Rightarrow> \<lparr>returned = Titles [], upstream_calls = 1, service = svc1\<rparr>
              | Inr search_results \<Rightarrow>
                  let filtered_results = filter_titles [] search_results in
                  (case KnowledgeCache_set (fst ts) (snd ts) cache_key
                          (Titles filtered_results) None c1 of
                     Inl err \<Rightarrow> \<lparr>returned = Titles [], upstream_calls = 1, service = svc1\<rparr>
                   | Inr c2 \<Rightarrow>
                       \<lparr>returned = Titles filtered_results, upstream_calls = 1,
                        service = svc\<lparr>wiki_cache := c2\<rparr>\<rparr>)))"

text \<open>
  The extract built from \<^verbatim>\<open>page.content\<close>: the paragraphs of more than 50 characters,
  the first three of them joined by blank lines, cut after 1000 characters with an
  ellipsis appended. \<open>None\<close> when no paragraph is long enough.
\<close>

definition extract_summary :: "string \<Rightarrow> string option" where
  "extract_summary content =
     (let paragraphs = filter (\<lambda>p. 50 < length p) (split_blank [] content) in
      if paragraphs \<noteq> []
      then
        let summary = join [newline, newline] (take (min 3 (length paragraphs)) paragraphs)
        in Some (if 1000 < length summary then take 1000 summary @ ''...'' else summary)
      else None)"

text \<open>
  What the \<^verbatim>\<open>wikipedia\<close> package does for one call of \<^verbatim>\<open>get_page_summary\<close>:
  \<open>page\<close> is the outcome of \<^verbatim>\<open>wikipedia.page\<close>, an exception or the page with its
  content and with what reading \<^verbatim>\<open>page.summary\<close> gives; \<open>short\<close> is the outcome
  of \<^verbatim>\<open>wikipedia.summary\<close>, called when anything in the first attempt raised.
\<close>

record wiki_upstream =
  page :: "py_error + string \<times> (py_error + string)"
  short :: "py_error + string"

text \<open>
  The inner \<^verbatim>\<open>try\<close> of \<^verbatim>\<open>get_page_summary\<close>: the summary text or the exception that
  leaves it, and the number of calls made.
\<close>

definition fetch_summary :: "wiki_upstream \<Rightarrow> (py_error + string) \<times> nat" where
  "fetch_summary up =
     (case page up of
        Inl err \<Rightarrow> (short up, 2)
      | Inr (content, page_summary) \<Rightarrow>
          (case extract_summary content of
             Some summary \<Rightarrow> (Inr summary, 1)
           | None \<Rightarrow>
               (case page_summary of
                  Inr summary \<Rightarrow> (Inr summary, 1)
                | Inl err \<Rightarrow> (short up, 2))))"

definition disambiguation_text :: "string \<Rightarrow> string list \<Rightarrow> string" where
  "disambiguation_text title options =
     ''The term '' @ [CHR 0x27] @ title @ [CHR 0x27] @
     '' could refer to multiple topics including '' @
     join '', '' (take 3 options) @ ''. Please specify which one you're interested in.''"

text \<open>
  \<^verbatim>\<open>WikipediaService.get_page_summary\<close>. The value returned is \<open>Inr None\<close> for
  Python's \<^verbatim>\<open>None\<close>, and \<open>Inl\<close> for the exception that leaves the function: the
  handler of the disambiguation error updates the cache outside every \<^verbatim>\<open>try\<close>.
\<close>

definition get_page_summary ::
  "wiki_upstream \<Rightarrow> real \<times> real \<Rightarrow> real \<times> real \<Rightarrow> string \<Rightarrow> int
     \<Rightarrow> WikipediaService \<Rightarrow> (py_error + wiki_value option) served" where
  "get_page_summary up tg ts title sentences svc =
     (if title = [] \<or> strip title = []
      then \<lparr>returned = Inr None, upstream_calls = 0, service = svc\<rparr>
      else
        let cache_key = summary_cache_key title sentences;
            (cached_summary, c1) = KnowledgeCache_get (fst tg) (snd tg) cache_key (wiki_cache svc);
            svc1 = svc\<lparr>wiki_cache := c1\<rparr>
        in if truthy cached_summary
           then \<lparr>returned = Inr cached_summary, upstream_calls = 0, service = svc1\<rparr>
           else
             (case fetch_summary up of
                (Inr fetched, n) \<Rightarrow>
                  let summary = clean_content fetched in
                  (case KnowledgeCache_set (fst ts) (snd ts) cache_key (Summary summary)
                          (Some (7 * 86400)) c1 of
                     Inl err \<Rightarrow> \<lparr>returned = Inr None, upstream_calls = n, service = svc1\<rparr>
                   | Inr c2 \<Rightarrow>
                       \<lparr>returned = Inr (Some (Summary summary)), upstream_calls = n,
                        service = svc\<lparr>wiki_cache := c2\<rparr>\<rparr>)
              | (Inl (DisambiguationError options), n) \<Rightarrow>
                  let result = disambiguation_text title options in
                  (case KnowledgeCache_set (fst ts) (snd ts) cache_key (Summary result)
                          (Some 86400) c1 of
                     Inl err \<Rightarrow> \<lparr>returned = Inl err, upstream_calls = n, service = svc1\<rparr>
                   | Inr c2 \<Rightarrow>
                       \<lparr>returned = Inr (Some (Summary result)), upstream_calls = n,
                        service = svc\<lparr>wiki_cache := c2\<rparr>\<rparr>)
              | (Inl err, n) \<Rightarrow> \<lparr>returned = Inr None, upstream_calls = n, service = svc1\<rparr>))"

text \<open>
  Repeated calls for one query or one page: every call has its own upstream outcome and
  clock readings, and runs on the service the call before left behind.
\<close>

fun search_repeat ::
  "((py_error + string list) \<times> (real \<times> real) \<times> (real \<times> real)) list \<Rightarrow> string \<Rightarrow> int
     \<Rightarrow> WikipediaService \<Rightarrow> wiki_value served list" where
  "search_repeat [] query limit svc = []"
| "search_repeat ((upstream, tg, ts) # rest) query limit svc =
     (let r = search upstream tg ts query limit svc
      in r # search_repeat rest query limit (service r))"

fun summary_repeat ::
  "(wiki_upstream \<times> (real \<times> real) \<times> (real \<times> real)) list \<Rightarrow> string \<Rightarrow> int
     \<Rightarrow> WikipediaService \<Rightarrow> (py_error + wiki_value option) served list" where
  "summary_repeat [] title sentences svc = []"
| "summary_repeat ((up, tg, ts) # rest) title sentences svc =
     (let r = get_page_summary up tg ts title sentences svc
      in r # summary_repeat rest title sentences (service r))"

text \<open>An upstream search that yields no title to keep, and a fetch that yields no text.\<close>

definition empty_search :: "py_error + string list \<Rightarrow> bool" where
  "empty_search upstream =
     (case upstream of Inl err \<Rightarrow> False | Inr results \<Rightarrow> filter_titles [] results = [])"

definition empty_summary :: "wiki_upstream \<Rightarrow> bool" where
  "empty_summary up =
     (case fst (fetch_summary up) of Inl err \<Rightarrow> False | Inr fetched \<Rightarrow> clean_content fetched = [])"

text \<open>The cache holds no true value under the key: a lookup finds nothing the tests accept.\<close>

definition no_truthy :: "string \<Rightarrow> (string, wiki_value) KnowledgeCache \<Rightarrow> bool" where
  "no_truthy key c =
     (case map_of (cache c) key of None \<Rightarrow> True | Some e \<Rightarrow> \<not> truthy (Some (stored e)))"

section \<open>The response orchestrator: \<^verbatim>\<open>ChatManager\<close> in conversation.py\<close>

subsection \<open>The session cache: \<^verbatim>\<open>TTLCache\<close>\<close>

record 'v TTLCache =
  entries :: "(string, 'v entry) dict"
  default_ttl :: real

definition TTLCache_init :: "real \<Rightarrow> 'v TTLCache" where
  "TTLCache_init t = \<lparr>entries = [], default_ttl = t\<rparr>"

text \<open>\<^verbatim>\<open>TTLCache.get\<close> and \<^verbatim>\<open>TTLCache.set\<close>; \<open>now\<close> is the one clock reading of the call.\<close>

definition TTLCache_get :: "real \<Rightarrow> string \<Rightarrow> 'v TTLCache \<Rightarrow> 'v option \<times> 'v TTLCache" where
  "TTLCache_get now key c =
     (case map_of (entries c) key of
        None \<Rightarrow> (None, c)
      | Some e \<Rightarrow>
          if now < expires e then (Some (stored e), c)
          else (None, c\<lparr>entries := dict_del (entries c) key\<rparr>))"

definition TTLCache_set :: "real \<Rightarrow> string \<Rightarrow> 'v \<Rightarrow> real option \<Rightarrow> 'v TTLCache \<Rightarrow> 'v TTLCache" where
  "TTLCache_set now key v t c =
     c\<lparr>entries := dict_set (entries c) key
          \<lparr>stored = v, expires = now + ttl_or_default t (default_ttl c)\<rparr>\<rparr>"

subsection \<open>The helpers of \<^verbatim>\<open>process_message\<close>\<close>

text \<open>\<^verbatim>\<open>_normalize_message\<close>: the key of the session cache.\<close>

definition normalize_message :: "string \<Rightarrow> string" where
  "normalize_message message =
     (if message = [] then []
      else filter (\<lambda>c. isword c \<or> isspace c \<or> c = CHR ''?'')
             (join '' '' (split (lower message))))"

text \<open>\<^verbatim>\<open>_analyze_question_type\<close>.\<close>

definition any_in :: "string list \<Rightarrow> string \<Rightarrow> bool" where
  "any_in patterns message = list_ex (\<lambda>pattern. contains pattern message) patterns"

definition analyze_question_type :: "string \<Rightarrow> string" where
  "analyze_question_type message =
     (let m = lower message in
      if any_in [''what is'', ''who is'', ''when did'', ''where is'', ''how many'', ''define''] m
      then ''factual''
      else if any_in [''what do you think'', ''opinion'', ''believe'', ''feel about''] m
      then ''opinion''
      else if any_in [''how to'', ''how do i'', ''steps'', ''process'', ''procedure''] m
      then ''procedural''
      else if any_in [''difference between'', ''compare'', ''better'', ''versus'', ''vs''] m
      then ''comparison''
      else ''knowledge'')"

text \<open>\<^verbatim>\<open>_build_system_prompt\<close>: the preamble handed to the generation client.\<close>

definition type_instructions :: "(string, string) dict" where
  "type_instructions =
     [(''factual'',
         ''Provide accurate factual information. Be precise and cite sources when possible.''),
      (''opinion'',
         ''Provide a balanced perspective. Consider different viewpoints and explain your '' @
         ''reasoning.''),
      (''procedural'',
         ''Provide clear step-by-step instructions. Be thorough but concise.''),
      (''comparison'',
         ''Compare the items carefully, highlighting similarities and differences. Consider '' @
         ''multiple aspects.''),
      (''knowledge'',
         ''Provide comprehensive information on the topic. Cover key points and be '' @
         ''educational.'')]"

definition build_system_prompt ::
  "string \<Rightarrow> string \<Rightarrow> string \<Rightarrow> string \<Rightarrow> string \<Rightarrow> string" where
  "build_system_prompt message title retrieved_info question_type knowledge_source =
     ''You are an intelligent and helpful AI assistant. '' @
     (case map_of type_instructions question_type of
        Some instruction \<Rightarrow> instruction
      | None \<Rightarrow> the (map_of type_instructions ''knowledge'')) @ '' '' @
     (if retrieved_info \<noteq> []
      then [newline, newline] @ ''Retrieved information about '' @ title @ '' from '' @
           knowledge_source @ '': '' @ retrieved_info @ [newline, newline] @
           ''Use this information to help answer the question, but also draw on your '' @
           ''general knowledge to provide a complete response. If the information doesn't '' @
           ''fully address the question, be honest about what you know and don't know.''
      else [newline, newline] @
           ''Answer based on your general knowledge. If you don't know the specific answer, '' @
           ''be honest about it and provide related information that might be helpful.'')"

text \<open>
  \<^verbatim>\<open>_create_fallback_response\<close>; the table is \<^verbatim>\<open>self.knowledge_base.fallback_knowledge\<close>,
  scanned for the first key that the lower-cased message contains.
\<close>

definition create_fallback_response ::
  "(string, string) dict \<Rightarrow> string \<Rightarrow> string \<Rightarrow> string \<Rightarrow> string" where
  "create_fallback_response fallback_knowledge message title retrieved_info =
     (if retrieved_info \<noteq> []
      then ''Based on what I found about '' @ title @ '': '' @ retrieved_info @
           [newline, newline] @ ''This should help answer your question about '' @
           strip message @ ''.''
      else
        (case first_fallback (lower message) fallback_knowledge of
           Some info \<Rightarrow> info
         | None \<Rightarrow>
             ''I'm sorry, but I'm having trouble generating a complete response right now. '' @
             ''Here's what I know about your question: '' @
             ''The topic appears to be about '' @
             (if title \<noteq> [] then title
              else ''something I don't have specific information on'') @ ''. '' @
             ''Could you try rephrasing your question or asking about something else?''))"

text \<open>\<^verbatim>\<open>_post_process_response\<close>.\<close>

definition post_process_response :: "string \<Rightarrow> string \<Rightarrow> string \<Rightarrow> string" where
  "post_process_response response message title =
     (if response = []
      then ''I apologize, but I couldn't generate a response. Please try asking again.''
      else if title \<noteq> [] \<and> \<not> contains ''wikipedia'' (lower response) \<and> 100 < length response
      then response @ [newline, newline] @ ''Information about '' @ title @
           '' was retrieved from Wikipedia and other knowledge sources.''
      else response)"

subsection \<open>The manager\<close>

record turn =
  role :: string
  content :: string

record ChatManager =
  history :: "turn list"
  query_cache :: "string TTLCache"
  fallback_knowledge :: "(string, string) dict"

definition ChatManager_init :: "(string, string) dict \<Rightarrow> ChatManager" where
  "ChatManager_init table =
     \<lparr>history = [], query_cache = TTLCache_init 3600, fallback_knowledge = table\<rparr>"

text \<open>
  The generation client as the manager sees it: \<open>llm n message chat_history preamble\<close>
  is what the call of \<^verbatim>\<open>cohere_client.chat\<close> under its timeout does after \<open>n\<close> failed
  calls, raise or return a text.
\<close>

type_synonym generation = "nat \<Rightarrow> string \<Rightarrow> turn list \<Rightarrow> string \<Rightarrow> py_error + string"

text \<open>
  The retry loop of step 5: the response and the number of calls made. After the last
  retry the fallback response is used.
\<close>

function generate ::
  "generation \<Rightarrow> string \<Rightarrow> string \<Rightarrow> turn list \<Rightarrow> string \<Rightarrow> nat \<Rightarrow> nat \<Rightarrow> string \<times> nat" where
  "generate llm fallback message chat_history system_prompt max_retries current_retry =
     (case llm current_retry message chat_history system_prompt of
        Inr response \<Rightarrow> (response, Suc current_retry)
      | Inl err \<Rightarrow>
          if Suc current_retry \<le> max_retries
          then generate llm fallback message chat_history system_prompt max_retries
                 (Suc current_retry)
          else (fallback, Suc current_retry))"
  by pat_completeness auto
termination
  by (relation "measure (\<lambda>(llm, fallback, message, chat_history, system_prompt, max_retries,
        current_retry). Suc max_retries - current_retry)") auto

declare generate.simps [simp del]

text \<open>The result of \<^verbatim>\<open>process_message\<close>: the text returned, the number of calls of the
  generation client, and the manager after the call.\<close>

record processed =
  reply :: string
  llm_calls :: nat
  manager :: ChatManager


text \<open>
  \<^verbatim>\<open>ChatManager.process_message\<close> for \<^verbatim>\<open>stream=False\<close>, as its caller uses it.
  \<open>knowledge\<close> is what awaiting the retrieval task under the outer timeout does: raise
  or return a title and a text. \<open>t_get\<close> and \<open>t_set\<close> are the clock readings of the
  cache lookup and of the cache update. An exception other than the timeout of the
  retrieval reaches the outer handler, which returns an apology. \<open>process_miss\<close> is
  the function from step 1 on, entered when the session cache gave no non-empty text;
  the fallback response, which the source builds once the retries are used up, is
  handed to the retry loop as a value.
\<close>

definition knowledge_ttl :: "string \<Rightarrow> real" where
  "knowledge_ttl question_type =
     (if question_type = ''factual'' \<or> question_type = ''knowledge'' then 86400 else 3600)"

definition process_miss ::
  "py_error + knowledge \<Rightarrow> generation \<Rightarrow> real \<Rightarrow> string \<Rightarrow> string \<Rightarrow> ChatManager
     \<Rightarrow> processed" where
  "process_miss knowledge llm t_set message normalized_message m1 =
     (let chat_history = drop (length (history m1) - 6) (history m1);
          question_type = analyze_question_type normalized_message
      in case (case knowledge of
                 Inr (title, retrieved_info) \<Rightarrow>
                   Inr (title, retrieved_info, if title \<noteq> [] then ''wikipedia'' else [])
               | Inl TimeoutError \<Rightarrow> Inr ([], [], ''timeout'')
               | Inl err \<Rightarrow> Inl err) of
           Inl err \<Rightarrow>
             \<lparr>reply = ''I'm sorry, but I encountered an unexpected error. '' @
                      ''Please try asking a different question.'',
              llm_calls = 0, manager = m1\<rparr>
         | Inr (title, retrieved_info, knowledge_source) \<Rightarrow>
             let system_prompt =
                   build_system_prompt message title retrieved_info question_type knowledge_source;
                 (response, n_calls) =
                   generate llm
                     (create_fallback_response (fallback_knowledge m1) message title retrieved_info)
                     message chat_history system_prompt 2 0;
                 final_response = post_process_response response message title;
                 ttl = knowledge_ttl question_type
             in \<lparr>reply = final_response, llm_calls = n_calls,
                 manager = m1\<lparr>history := history m1 @
                               [\<lparr>role = ''user'', content = message\<rparr>,
                                \<lparr>role = ''assistant'', content = final_response\<rparr>],
                             query_cache := TTLCache_set t_set normalized_message final_response
                                              (Some ttl) (query_cache m1)\<rparr>\<rparr>)"

definition process_message ::
  "py_error + knowledge \<Rightarrow> generation \<Rightarrow> real \<Rightarrow> real \<Rightarrow> string \<Rightarrow> ChatManager \<Rightarrow> processed" where
  "process_message knowledge llm t_get t_set message m =
     (let normalized_message = normalize_message message;
          cache_key = normalized_message;
          (cached_response, qc1) = TTLCache_get t_get cache_key (query_cache m);
          m1 = m\<lparr>query_cache := qc1\<rparr>
      in case cached_response of
           Some cached \<Rightarrow>
             if cached \<noteq> []
             then \<lparr>reply = cached, llm_calls = 0,
                   manager = m1\<lparr>history := history m1 @
                     [\<lparr>role = ''user'', content = message\<rparr>,
                      \<lparr>role = ''assistant'', content = cached\<rparr>]\<rparr>\<rparr>
             else process_miss knowledge llm t_set message normalized_message m1
         | None \<Rightarrow> process_miss knowledge llm t_set message normalized_message m1)"

section \<open>Properties of the token bucket\<close>

lemma acquire_params [simp]:
  "rate (snd (acquire now cost rl)) = rate rl"
  "per (snd (acquire now cost rl)) = per rl"
  "burst (snd (acquire now cost rl)) = burst rl"
  by (simp_all add: acquire_def refill_def Let_def)

lemma acquire_last_refill:
  "per rl \<noteq> 0 \<Longrightarrow> last_refill (snd (acquire now cost rl)) = now"
  by (simp add: acquire_def refill_def Let_def)

lemma acquire_last_refill_le:
  "last_refill rl \<le> now \<Longrightarrow> last_refill rl \<le> last_refill (snd (acquire now cost rl))"
  by (simp add: acquire_def refill_def Let_def)

lemma refill_in_range:
  assumes "tokens_in_range rl" "0 \<le> rate rl" "0 \<le> per rl" "last_refill rl \<le> now"
  shows "tokens_in_range (refill now rl)"
proof -
  have "0 \<le> (now - last_refill rl) * (rate rl / per rl)"
    using assms by simp
  then show ?thesis
    using assms(1) by (simp add: tokens_in_range_def refill_def min_def)
qed

lemma acquire_in_range:
  assumes "tokens_in_range rl" "0 \<le> rate rl" "0 \<le> per rl" "last_refill rl \<le> now" "0 \<le> cost"
  shows "tokens_in_range (snd (acquire now cost rl))"
proof -
  have r: "tokens_in_range (refill now rl)"
    using assms(1-4) by (rule refill_in_range)
  have b: "burst (refill now rl) = burst rl"
    by (simp add: refill_def)
  show ?thesis
    using r assms(1,5) b
    by (auto simp: acquire_def Let_def tokens_in_range_def)
qed

lemma acquire_trace_in_range:
  "tokens_in_range rl \<Longrightarrow> 0 \<le> rate rl \<Longrightarrow> 0 \<le> per rl \<Longrightarrow>
   clock_ok (last_refill rl) (map fst cs) \<Longrightarrow> \<forall>c \<in> set cs. 0 \<le> snd c \<Longrightarrow>
   \<forall>rl' \<in> set (acquire_trace cs rl). tokens_in_range rl'"
proof (induction cs arbitrary: rl)
  case Nil
  then show ?case by simp
next
  case (Cons c cs)
  obtain now cost where c: "c = (now, cost)" by (cases c)
  let ?rl' = "snd (acquire now cost rl)"
  have le: "last_refill rl \<le> now" and rest: "clock_ok now (map fst cs)"
    using Cons.prems(4) c by simp_all
  have cost: "0 \<le> cost" using Cons.prems(5) c by simp
  have inv: "tokens_in_range ?rl'"
    using Cons.prems(1-3) le cost by (rule acquire_in_range)
  have clock: "clock_ok (last_refill ?rl') (map fst cs)"
  proof (cases "per rl = 0")
    case True
    then have "?rl' = rl" by (simp add: acquire_def)
    moreover have "clock_ok (last_refill rl) (map fst cs)"
      using le rest by (cases cs) auto
    ultimately show ?thesis by simp
  next
    case False
    then show ?thesis using rest by (simp add: acquire_last_refill)
  qed
  have "\<forall>rl' \<in> set (acquire_trace cs ?rl'). tokens_in_range rl'"
    using Cons.IH [OF inv _ _ clock] Cons.prems(2,3,5) by simp
  then show ?case using inv c by (simp add: Let_def)
qed

text \<open>
  C6. A limiter constructed with burst capacity \<open>B\<close> admits one \<open>acquire B\<close> with zero
  wait and is left with no tokens; an \<open>acquire 1\<close> at the same clock reading returns the
  positive wait \<open>(1 - tokens) * (period / rate)\<close> and leaves the limiter as it was. In
  general, with a non-zero period and rate, \<open>acquire\<close> is the admission rule of the
  specification: refill capped at the burst, then deduct and return zero, or return the
  shortfall wait without deducting.
\<close>

theorem acquire_fresh_burst_then_one:
  assumes "0 < r" "0 < p" "0 \<le> B" "t0 \<le> t"
  shows "acquire t B (RateLimiter_init r p B t0)
           = (Inr 0, \<lparr>rate = r, per = p, burst = B, tokens = 0, last_refill = t\<rparr>)
       \<and> acquire t 1 (snd (acquire t B (RateLimiter_init r p B t0)))
           = (Inr ((1 - tokens (snd (acquire t B (RateLimiter_init r p B t0)))) * (p / r)),
              snd (acquire t B (RateLimiter_init r p B t0)))
       \<and> 0 < (1 - tokens (snd (acquire t B (RateLimiter_init r p B t0)))) * (p / r)
       \<and> (\<forall>now cost rl. per rl \<noteq> 0 \<and> rate rl \<noteq> 0
             \<longrightarrow> acquire now cost rl = acquire_spec now cost rl)"
proof -
  let ?rl = "RateLimiter_init r p B t0"
  have nonneg: "0 \<le> (t - t0) * (r / p)"
    using assms by simp
  then have full: "min B (B + (t - t0) * (r / p)) = B"
    by simp
  have first: "acquire t B ?rl
      = (Inr 0, \<lparr>rate = r, per = p, burst = B, tokens = 0, last_refill = t\<rparr>)"
    using assms(2) full by (simp add: acquire_def refill_def RateLimiter_init_def Let_def)
  have empty: "min B 0 = 0"
    using assms(3) by simp
  have second: "acquire t 1 \<lparr>rate = r, per = p, burst = B, tokens = 0, last_refill = t\<rparr>
      = (Inr ((1 - 0) * (p / r)), \<lparr>rate = r, per = p, burst = B, tokens = 0, last_refill = t\<rparr>)"
    using assms(1,2) empty by (simp add: acquire_def refill_def Let_def)
  have pos: "0 < (1 - 0) * (p / r)"
    using assms(1,2) by simp
  have gen: "\<forall>now cost rl. per rl \<noteq> 0 \<and> rate rl \<noteq> 0
      \<longrightarrow> acquire now cost rl = acquire_spec now cost rl"
    by (auto simp: acquire_def acquire_spec_def refill_def Let_def)
  show ?thesis
    using first second pos gen by simp
qed

theorem acquire_fresh_burst_then_one_witness:
  "acquire 5 20 (RateLimiter_init 10 60 20 5)
     = (Inr 0, \<lparr>rate = 10, per = 60, burst = 20, tokens = 0, last_refill = 5\<rparr>)
   \<and> acquire 5 1 \<lparr>rate = 10, per = 60, burst = 20, tokens = 0, last_refill = 5\<rparr>
     = (Inr 6, \<lparr>rate = 10, per = 60, burst = 20, tokens = 0, last_refill = 5\<rparr>)
   \<and> acquire 11 1 \<lparr>rate = 10, per = 60, burst = 20, tokens = 0, last_refill = 5\<rparr>
     = acquire_spec 11 1 \<lparr>rate = 10, per = 60, burst = 20, tokens = 0, last_refill = 5\<rparr>"
proof -
  have h: "(0::real) < 10" "(0::real) < 60" "(0::real) \<le> 20" "(5::real) \<le> 5"
    by simp_all
  note t = acquire_fresh_burst_then_one [OF h]
  have a: "acquire 5 20 (RateLimiter_init 10 60 20 5)
     = (Inr 0, \<lparr>rate = 10, per = 60, burst = 20, tokens = 0, last_refill = 5\<rparr>)"
    using t by simp
  have b: "acquire 5 1 \<lparr>rate = 10, per = 60, burst = 20, tokens = 0, last_refill = 5\<rparr>
     = (Inr 6, \<lparr>rate = 10, per = 60, burst = 20, tokens = 0, last_refill = 5\<rparr>)"
    using t a by simp
  have c: "acquire 11 1 \<lparr>rate = 10, per = 60, burst = 20, tokens = 0, last_refill = 5\<rparr>
     = acquire_spec 11 1 \<lparr>rate = 10, per = 60, burst = 20, tokens = 0, last_refill = 5\<rparr>"
    using t by simp
  show ?thesis using a b c by simp
qed

text \<open>
  C7. Over every sequence of \<open>acquire\<close> calls with non-negative costs and a clock that
  never runs backwards, on a limiter constructed with non-negative rate, period and burst,
  the token count lies between zero and the burst capacity initially and after every
  call. A refill never lifts the tokens above the burst capacity, and a call lowers the
  refilled token count only when it holds at least the requested cost.
\<close>

theorem tokens_in_range_always:
  assumes "0 \<le> r" "0 \<le> p" "0 \<le> b"
    and "clock_ok t0 (map fst cs)" and "\<forall>c \<in> set cs. 0 \<le> snd c"
  shows "tokens_in_range (RateLimiter_init r p b t0)
       \<and> (\<forall>rl' \<in> set (acquire_trace cs (RateLimiter_init r p b t0)). tokens_in_range rl')
       \<and> (\<forall>now rl. tokens (refill now rl) \<le> burst rl)
       \<and> (\<forall>now cost rl. tokens (snd (acquire now cost rl)) < tokens (refill now rl)
             \<longrightarrow> cost \<le> tokens (refill now rl))"
proof -
  let ?rl = "RateLimiter_init r p b t0"
  have init: "tokens_in_range ?rl"
    using assms(3) by (simp add: tokens_in_range_def RateLimiter_init_def)
  have "clock_ok (last_refill ?rl) (map fst cs)" "0 \<le> rate ?rl" "0 \<le> per ?rl"
    using assms(1,2,4) by (simp_all add: RateLimiter_init_def)
  then have trace: "\<forall>rl' \<in> set (acquire_trace cs ?rl). tokens_in_range rl'"
    using acquire_trace_in_range [OF init] assms(5) by blast
  have cap: "\<forall>now rl. tokens (refill now rl) \<le> burst rl"
    by (simp add: refill_def)
  have deduct: "\<forall>now cost rl. tokens (snd (acquire now cost rl)) < tokens (refill now rl)
      \<longrightarrow> cost \<le> tokens (refill now rl)"
    by (auto simp: acquire_def refill_def Let_def split: if_splits)
  show ?thesis
    using init trace cap deduct by blast
qed

theorem tokens_in_range_always_witness:
  "map tokens (acquire_trace [(1, 5), (1, 20), (31, 3)] (RateLimiter_init 10 60 20 0))
     = [15, 15, 17]
   \<and> list_all tokens_in_range
        (acquire_trace [(1, 5), (1, 20), (31, 3)] (RateLimiter_init 10 60 20 0))"
proof -
  have h: "(0::real) \<le> 10" "(0::real) \<le> 60" "(0::real) \<le> 20"
    "clock_ok 0 (map fst [(1, 5), (1, 20), (31, 3::real)])"
    "\<forall>c \<in> set [(1, 5), (1, 20), (31::real, 3::real)]. 0 \<le> snd c"
    by simp_all
  have run: "map tokens (acquire_trace [(1, 5), (1, 20), (31, 3)] (RateLimiter_init 10 60 20 0))
     = [15, 15, 17]"
    by (simp add: acquire_def refill_def RateLimiter_init_def Let_def)
  show ?thesis
    using tokens_in_range_always [OF h] run by (simp add: list_all_iff)
qed

section \<open>Properties of dictionaries and of the bounded cache\<close>

lemma keys_dict_set [simp]: "keys (dict_set d k v) = insert k (keys d)"
  by (induction d) (auto simp: keys_def)

lemma keys_dict_del [simp]: "keys (dict_del d k) = keys d - {k}"
  by (auto simp: keys_def dict_del_def)

lemma keys_Nil [simp]: "keys [] = {}"
  by (simp add: keys_def)

lemma map_fst_dict_set:
  "map fst (dict_set d k v) = (if k \<in> keys d then map fst d else map fst d @ [k])"
  by (induction d) (auto simp: keys_def)

lemma distinct_dict_set [simp]:
  "distinct (map fst d) \<Longrightarrow> distinct (map fst (dict_set d k v))"
  by (simp add: map_fst_dict_set) (simp add: keys_def)

lemma distinct_dict_del [simp]:
  "distinct (map fst d) \<Longrightarrow> distinct (map fst (dict_del d k))"
  by (simp add: dict_del_def distinct_map_filter)

lemma length_dict_set:
  "length (dict_set d k v) = (if k \<in> keys d then length d else Suc (length d))"
  by (induction d) (auto simp: keys_def)

lemma length_dict_del:
  "distinct (map fst d) \<Longrightarrow> k \<in> keys d \<Longrightarrow> Suc (length (dict_del d k)) = length d"
proof (induction d)
  case Nil
  then show ?case by (simp add: keys_def)
next
  case (Cons p d)
  show ?case
  proof (cases "fst p = k")
    case True
    then have "k \<notin> fst ` set d" using Cons.prems(1) by auto
    then have "filter (\<lambda>q. fst q \<noteq> k) d = d"
      by (auto intro: filter_True)
    then show ?thesis using True by (simp add: dict_del_def)
  next
    case False
    then have "k \<in> keys d" using Cons.prems(2) by (auto simp: keys_def)
    then show ?thesis using Cons False by (simp add: dict_del_def)
  qed
qed

lemma length_dict_del_absent: "k \<notin> keys d \<Longrightarrow> dict_del d k = d"
  by (auto simp: dict_del_def keys_def intro: filter_True)

lemma map_of_dict_set [simp]: "map_of (dict_set d k v) = (map_of d)(k \<mapsto> v)"
  by (induction d) auto

lemma map_of_dict_del [simp]: "map_of (dict_del d k) = (map_of d)(k := None)"
  by (induction d) (auto simp: dict_del_def)

lemma min_item_mem: "min_item b d \<in> set (b # d)"
  by (induction d arbitrary: b) auto

lemma min_item_le: "p \<in> set (b # d) \<Longrightarrow> snd (min_item b d) \<le> snd p"
proof (induction d arbitrary: b p)
  case Nil
  then show ?case by simp
next
  case (Cons q d)
  let ?b = "if snd q < snd b then q else b"
  have step: "snd (min_item ?b d) \<le> snd ?b"
    using Cons.IH [of ?b ?b] by simp
  show ?case
  proof (cases "p \<in> set d")
    case True
    then show ?thesis using Cons.IH [of p ?b] by simp
  next
    case False
    then have "p = b \<or> p = q" using Cons.prems by auto
    then show ?thesis using step by (auto split: if_splits)
  qed
qed

lemma lru_key_mem: "d \<noteq> [] \<Longrightarrow> lru_key d \<in> keys d"
proof -
  assume "d \<noteq> []"
  then have "hd d # tl d = d" by simp
  then have "min_item (hd d) (tl d) \<in> set d"
    using min_item_mem [of "hd d" "tl d"] by simp
  then show ?thesis by (auto simp: lru_key_def keys_def)
qed

lemma lru_key_oldest:
  assumes "d \<noteq> []" "distinct (map fst d)"
  shows "\<exists>t. map_of d (lru_key d) = Some t \<and> (\<forall>p \<in> set d. t \<le> snd p)"
proof -
  have eq: "hd d # tl d = d" using assms(1) by simp
  let ?m = "min_item (hd d) (tl d)"
  have mem: "?m \<in> set d"
    using min_item_mem [of "hd d" "tl d"] eq by simp
  then have "map_of d (fst ?m) = Some (snd ?m)"
    using assms(2) by simp
  moreover have "\<forall>p \<in> set d. snd ?m \<le> snd p"
    using min_item_le [of _ "hd d" "tl d"] eq by simp
  ultimately show ?thesis by (simp add: lru_key_def)
qed

lemma kc_inv_init: "kc_inv (KnowledgeCache_init m t)"
  by (simp add: kc_inv_def KnowledgeCache_init_def)

lemma kc_inv_clear: "kc_inv (KnowledgeCache_clear c)"
  by (simp add: kc_inv_def KnowledgeCache_clear_def)

lemma kc_inv_store: "kc_inv c \<Longrightarrow> kc_inv (store t1 t2 k v t c)"
  by (simp add: kc_inv_def store_def)

lemma kc_inv_evicted: "kc_inv c \<Longrightarrow> kc_inv (evicted k c)"
  by (simp add: kc_inv_def evicted_def)

lemma map_of_Some_keys: "map_of d k = Some v \<Longrightarrow> k \<in> keys d"
  by (auto simp: keys_def dest: map_of_SomeD intro: rev_image_eqI)

lemma kc_inv_get:
  assumes "kc_inv c"
  shows "kc_inv (snd (KnowledgeCache_get t1 t2 k c))"
proof (cases "map_of (cache c) k")
  case None
  then show ?thesis using assms by (simp add: KnowledgeCache_get_def)
next
  case (Some e)
  then have "k \<in> keys (access_times c)"
    using assms map_of_Some_keys [OF Some] by (simp add: kc_inv_def)
  then have "insert k (keys (access_times c)) = keys (access_times c)"
    by auto
  then show ?thesis
    using assms Some by (simp add: KnowledgeCache_get_def kc_inv_def)
qed

lemma kc_inv_empty_iff: "kc_inv c \<Longrightarrow> access_times c = [] \<longleftrightarrow> cache c = []"
  by (auto simp: kc_inv_def keys_def)

lemma evict_lru_eq:
  assumes "kc_inv c"
  shows "evict_lru c =
    Inr (if cache c = [] then c else evicted (lru_key (access_times c)) c)"
proof (cases "cache c = []")
  case True
  then show ?thesis
    using assms by (simp add: evict_lru_def kc_inv_empty_iff)
next
  case False
  then have ne: "access_times c \<noteq> []"
    using assms by (simp add: kc_inv_empty_iff)
  then have "lru_key (access_times c) \<in> keys (cache c)"
    using lru_key_mem [OF ne] assms by (simp add: kc_inv_def)
  then show ?thesis
    using False ne by (simp add: evict_lru_def evicted_def Let_def)
qed

lemma set_eq:
  assumes "kc_inv c"
  shows "KnowledgeCache_set t1 t2 k v t c =
    Inr (store t1 t2 k v t
      (if max_size c \<le> int (length (cache c)) \<and> cache c \<noteq> []
       then evicted (lru_key (access_times c)) c else c))"
  using assms by (simp add: KnowledgeCache_set_def evict_lru_eq store_def)

lemma length_evicted:
  assumes "kc_inv c" "cache c \<noteq> []"
  shows "Suc (length (cache (evicted (lru_key (access_times c)) c))) = length (cache c)"
proof -
  have "access_times c \<noteq> []"
    using assms by (simp add: kc_inv_empty_iff)
  then have "lru_key (access_times c) \<in> keys (cache c)"
    using lru_key_mem assms(1) by (fastforce simp: kc_inv_def)
  then show ?thesis
    using assms(1) by (simp add: evicted_def length_dict_del kc_inv_def)
qed

lemma length_store:
  "length (cache (store t1 t2 k v t c)) =
     (if k \<in> keys (cache c) then length (cache c) else Suc (length (cache c)))"
  by (simp add: store_def length_dict_set)

lemma store_params [simp]:
  "max_size (store t1 t2 k v t c) = max_size c" "ttl (store t1 t2 k v t c) = ttl c"
  "max_size (evicted j c) = max_size c" "ttl (evicted j c) = ttl c"
  by (simp_all add: store_def evicted_def)

lemma set_bounded:
  assumes "kc_inv c" "1 \<le> max_size c" "int (length (cache c)) \<le> max_size c"
    and "KnowledgeCache_set t1 t2 k v t c = Inr c'"
  shows "kc_inv c' \<and> max_size c' = max_size c \<and> int (length (cache c')) \<le> max_size c'"
proof (cases "max_size c \<le> int (length (cache c)) \<and> cache c \<noteq> []")
  case True
  let ?e = "evicted (lru_key (access_times c)) c"
  have c': "c' = store t1 t2 k v t ?e"
    using assms(1,4) True by (simp add: set_eq)
  have "Suc (length (cache ?e)) = length (cache c)"
    using assms(1) True by (simp add: length_evicted)
  then have "int (length (cache (store t1 t2 k v t ?e))) \<le> max_size c"
    using assms(3) by (simp add: length_store)
  then show ?thesis
    using c' assms(1) by (simp add: kc_inv_store kc_inv_evicted)
next
  case False
  have "KnowledgeCache_set t1 t2 k v t c = Inr (store t1 t2 k v t c)"
    unfolding set_eq [OF assms(1)] using False by (simp only: if_False)
  then have c': "c' = store t1 t2 k v t c"
    using assms(4) by simp
  have "int (length (cache c)) < max_size c"
    using False assms(2,3) by (cases "cache c") auto
  then have "int (length (cache (store t1 t2 k v t c))) \<le> max_size c"
    by (simp add: length_store)
  then show ?thesis
    using c' assms(1) by (simp add: kc_inv_store)
qed

lemma get_length:
  "length (cache (snd (KnowledgeCache_get t1 t2 k c))) \<le> length (cache c)"
  by (simp add: KnowledgeCache_get_def dict_del_def split: option.splits)

lemma get_max_size [simp]: "max_size (snd (KnowledgeCache_get t1 t2 k c)) = max_size c"
  by (simp add: KnowledgeCache_get_def split: option.splits)

lemma call_bounded:
  assumes "bounded c" "1 \<le> max_size c"
  shows "bounded (call x c) \<and> max_size (call x c) = max_size c"
proof (cases x)
  case (Get t1 t2 k)
  have "int (length (cache (snd (KnowledgeCache_get t1 t2 k c)))) \<le> max_size c"
    using get_length [of t1 t2 k c] assms(1) by (simp add: bounded_def)
  then show ?thesis
    using Get assms(1) by (simp add: bounded_def kc_inv_get)
next
  case (Set t1 t2 k v t)
  show ?thesis
  proof (cases "KnowledgeCache_set t1 t2 k v t c")
    case (Inl e)
    then show ?thesis using Set assms(1) by simp
  next
    case (Inr c')
    then show ?thesis
      using Set set_bounded [OF _ assms(2) _ Inr] assms(1) by (simp add: bounded_def)
  qed
next
  case Clear
  then show ?thesis
    using assms by (simp add: bounded_def kc_inv_clear) (simp add: KnowledgeCache_clear_def)
qed

lemma calls_bounded:
  "bounded c \<Longrightarrow> 1 \<le> max_size c \<Longrightarrow>
   bounded (calls xs c) \<and> max_size (calls xs c) = max_size c"
proof (induction xs arbitrary: c)
  case Nil
  then show ?case by simp
next
  case (Cons x xs)
  have "bounded (call x c)" "max_size (call x c) = max_size c"
    using call_bounded [OF Cons.prems] by simp_all
  then show ?case
    using Cons.IH [of "call x c"] Cons.prems(2) by simp
qed

lemma bounded_init: "0 \<le> m \<Longrightarrow> bounded (KnowledgeCache_init m t)"
  by (simp add: bounded_def kc_inv_init) (simp add: KnowledgeCache_init_def)

lemma keys_evicted: "keys (cache (evicted j c)) = keys (cache c) - {j}"
  by (simp add: evicted_def)

lemma keys_store: "keys (cache (store t1 t2 k v t c)) = insert k (keys (cache c))"
  by (simp add: store_def)

lemma set_new_key:
  assumes "bounded c" "1 \<le> max_size c" "k \<notin> keys (cache c)"
  shows "\<exists>c'. KnowledgeCache_set t1 t2 k v t c = Inr c' \<and> bounded c'
          \<and> max_size c' = max_size c
          \<and> int (length (cache c')) = min (max_size c) (int (length (cache c)) + 1)
          \<and> keys (cache c') \<subseteq> insert k (keys (cache c))"
proof -
  have inv: "kc_inv c" and le: "int (length (cache c)) \<le> max_size c"
    using assms(1) by (simp_all add: bounded_def)
  show ?thesis
  proof (cases "max_size c \<le> int (length (cache c)) \<and> cache c \<noteq> []")
    case True
    let ?e = "evicted (lru_key (access_times c)) c"
    let ?c' = "store t1 t2 k v t ?e"
    have eq: "KnowledgeCache_set t1 t2 k v t c = Inr ?c'"
      using inv True by (simp add: set_eq)
    have b: "bounded ?c'"
      using set_bounded [OF inv assms(2) le eq] by (simp add: bounded_def)
    have "k \<notin> keys (cache ?e)"
      using assms(3) by (simp add: keys_evicted)
    then have "length (cache ?c') = Suc (length (cache ?e))"
      by (simp add: length_store)
    also have "\<dots> = length (cache c)"
      using inv True by (simp add: length_evicted)
    finally have len: "int (length (cache ?c')) = min (max_size c) (int (length (cache c)) + 1)"
      using True le by simp
    have "keys (cache ?c') \<subseteq> insert k (keys (cache c))"
      by (auto simp: keys_store keys_evicted)
    then show ?thesis
      using eq b len by simp
  next
    case False
    let ?c' = "store t1 t2 k v t c"
    have eq: "KnowledgeCache_set t1 t2 k v t c = Inr ?c'"
      unfolding set_eq [OF inv] using False by (simp only: if_False)
    have b: "bounded ?c'"
      using set_bounded [OF inv assms(2) le eq] by (simp add: bounded_def)
    have "int (length (cache c)) < max_size c"
      using False assms(2) le by (cases "cache c") auto
    then have len: "int (length (cache ?c')) = min (max_size c) (int (length (cache c)) + 1)"
      using assms(3) by (simp add: length_store)
    show ?thesis
      using eq b len by (simp add: keys_store)
  qed
qed

lemma set_all_distinct:
  "bounded c \<Longrightarrow> 1 \<le> max_size c \<Longrightarrow> distinct (map item_key xs) \<Longrightarrow>
   item_key ` set xs \<inter> keys (cache c) = {} \<Longrightarrow>
   \<exists>c'. set_all xs c = Inr c' \<and> bounded c' \<and> max_size c' = max_size c
     \<and> int (length (cache c')) = min (max_size c) (int (length (cache c)) + int (length xs))"
proof (induction xs arbitrary: c)
  case Nil
  then show ?case by (simp add: bounded_def)
next
  case (Cons x xs)
  obtain t1 t2 k v t where x: "x = (t1, t2, k, v, t)"
    by (cases x)
  have k: "item_key x = k"
    using x by (simp add: item_key_def)
  have fresh: "k \<notin> keys (cache c)"
    using Cons.prems(4) k by auto
  obtain c' where c': "KnowledgeCache_set t1 t2 k v t c = Inr c'" "bounded c'"
      "max_size c' = max_size c"
      "int (length (cache c')) = min (max_size c) (int (length (cache c)) + 1)"
      "keys (cache c') \<subseteq> insert k (keys (cache c))"
    using set_new_key [OF Cons.prems(1,2) fresh] by blast
  have d: "distinct (map item_key xs)" and nk: "k \<notin> item_key ` set xs"
    using Cons.prems(3) k by auto
  have disj: "item_key ` set xs \<inter> keys (cache c') = {}"
    using Cons.prems(4) c'(5) nk by auto
  obtain c'' where c'': "set_all xs c' = Inr c''" "bounded c''" "max_size c'' = max_size c'"
      "int (length (cache c'')) = min (max_size c') (int (length (cache c')) + int (length xs))"
    using Cons.IH [OF c'(2) _ d disj] Cons.prems(2) c'(3) by auto
  have "int (length (cache c'')) = min (max_size c) (int (length (cache c)) + int (length (x # xs)))"
    using c''(4) c'(3,4) by auto
  then show ?case
    using x c'(1) c''(1,2,3) c'(3) by simp
qed

text \<open>
  C4. In every state \<open>c\<close> that calls of \<open>get\<close>, \<open>set\<close> and \<open>clear\<close> reach from a fresh
  cache of capacity \<open>m \<ge> 1\<close>, a \<open>set\<close> returns and leaves at most \<open>m\<close> entries. When
  \<open>c\<close> is at capacity, the entry removed before the insertion is the one under
  \<open>lru_key\<close>, whose last-access time is the least of all access times. Storing
  \<open>m + 1\<close> items with distinct keys into a fresh cache leaves exactly \<open>m\<close> entries.
\<close>

theorem bounded_cache_capacity:
  fixes c :: "('k, 'v) KnowledgeCache"
  assumes "1 \<le> m" and "c = calls xs (KnowledgeCache_init m d)"
  shows "(\<exists>c'. KnowledgeCache_set t1 t2 k v t c = Inr c' \<and> int (length (cache c')) \<le> m)
       \<and> (m \<le> int (length (cache c)) \<longrightarrow>
            (\<exists>a. map_of (access_times c) (lru_key (access_times c)) = Some a
               \<and> (\<forall>p \<in> set (access_times c). a \<le> snd p)
               \<and> KnowledgeCache_set t1 t2 k v t c
                   = Inr (store t1 t2 k v t (evicted (lru_key (access_times c)) c))))
       \<and> (distinct (map item_key items) \<and> int (length items) = m + 1 \<longrightarrow>
            (\<exists>c'. set_all items (KnowledgeCache_init m d :: ('k, 'v) KnowledgeCache) = Inr c'
               \<and> int (length (cache c')) = m))"
proof -
  have b0: "bounded (KnowledgeCache_init m d :: ('k, 'v) KnowledgeCache)"
    using assms(1) by (simp add: bounded_init)
  have m0: "max_size (KnowledgeCache_init m d :: ('k, 'v) KnowledgeCache) = m"
    by (simp add: KnowledgeCache_init_def)
  have b: "bounded c" and mc: "max_size c = m"
    using calls_bounded [OF b0, of xs] assms m0 by simp_all
  have inv: "kc_inv c" and le: "int (length (cache c)) \<le> max_size c"
    using b by (simp_all add: bounded_def)
  obtain c' where c': "KnowledgeCache_set t1 t2 k v t c = Inr c'"
    using set_eq [OF inv] by blast
  have first: "\<exists>c'. KnowledgeCache_set t1 t2 k v t c = Inr c' \<and> int (length (cache c')) \<le> m"
    using set_bounded [OF inv _ le c'] c' mc assms(1) by auto
  have second: "\<exists>a. map_of (access_times c) (lru_key (access_times c)) = Some a
               \<and> (\<forall>p \<in> set (access_times c). a \<le> snd p)
               \<and> KnowledgeCache_set t1 t2 k v t c
                   = Inr (store t1 t2 k v t (evicted (lru_key (access_times c)) c))"
    if full: "m \<le> int (length (cache c))"
  proof -
    have ne: "cache c \<noteq> []"
      using full assms(1) by auto
    then have "access_times c \<noteq> []"
      using inv by (simp add: kc_inv_empty_iff)
    moreover have "distinct (map fst (access_times c))"
      using inv by (simp add: kc_inv_def)
    ultimately obtain a where "map_of (access_times c) (lru_key (access_times c)) = Some a"
        "\<forall>p \<in> set (access_times c). a \<le> snd p"
      using lru_key_oldest by blast
    moreover have "KnowledgeCache_set t1 t2 k v t c
        = Inr (store t1 t2 k v t (evicted (lru_key (access_times c)) c))"
      using inv ne full mc by (simp add: set_eq)
    ultimately show ?thesis by blast
  qed
  have third: "\<exists>c'. set_all items (KnowledgeCache_init m d :: ('k, 'v) KnowledgeCache) = Inr c'
               \<and> int (length (cache c')) = m"
    if dist: "distinct (map item_key items)" and len: "int (length items) = m + 1"
  proof -
    have "item_key ` set items \<inter> keys (cache (KnowledgeCache_init m d :: ('k, 'v) KnowledgeCache)) = {}"
      by (simp add: KnowledgeCache_init_def)
    then obtain c' where "set_all items (KnowledgeCache_init m d :: ('k, 'v) KnowledgeCache) = Inr c'"
       "int (length (cache c')) = min m (int (length (cache (KnowledgeCache_init m d :: ('k, 'v) KnowledgeCache))) + int (length items))"
      using set_all_distinct [OF b0 _ dist] m0 assms(1) by auto
    then show ?thesis
      using len by (simp add: KnowledgeCache_init_def)
  qed
  show ?thesis
    using first second third by blast
qed

theorem bounded_cache_capacity_witness:
  "calls [Set 1 1 ''a'' (10::nat) None, Set 3 3 ''b'' 20 None, Get 4 4 ''a'']
       (KnowledgeCache_init 2 60)
     = \<lparr>cache = [(''a'', \<lparr>stored = 10, expires = 61\<rparr>), (''b'', \<lparr>stored = 20, expires = 63\<rparr>)],
        max_size = 2, ttl = 60, access_times = [(''a'', 4), (''b'', 3)]\<rparr>
   \<and> KnowledgeCache_set 5 5 ''c'' 30 None
       (calls [Set 1 1 ''a'' (10::nat) None, Set 3 3 ''b'' 20 None, Get 4 4 ''a'']
          (KnowledgeCache_init 2 60))
     = Inr \<lparr>cache = [(''a'', \<lparr>stored = 10, expires = 61\<rparr>), (''c'', \<lparr>stored = 30, expires = 65\<rparr>)],
        max_size = 2, ttl = 60, access_times = [(''a'', 4), (''c'', 5)]\<rparr>
   \<and> (\<exists>c'. set_all [(1, 1, ''a'', 10::nat, None), (2, 2, ''b'', 20, None), (3, 3, ''c'', 30, None)]
             (KnowledgeCache_init 2 60) = Inr c' \<and> int (length (cache c')) = 2)"
proof -
  let ?xs = "[Set 1 1 ''a'' (10::nat) None, Set 3 3 ''b'' 20 None, Get 4 4 ''a'']"
  let ?items = "[(1, 1, ''a'', 10::nat, None), (2::real, 2::real, ''b'', 20, None::real option),
                 (3, 3, ''c'', 30, None)]"
  define C where "C = calls ?xs (KnowledgeCache_init 2 60)"
  have run: "C = \<lparr>cache = [(''a'', \<lparr>stored = 10, expires = 61\<rparr>), (''b'', \<lparr>stored = 20, expires = 63\<rparr>)],
        max_size = 2, ttl = 60, access_times = [(''a'', 4), (''b'', 3)]\<rparr>"
    unfolding C_def
    by (simp add: KnowledgeCache_init_def KnowledgeCache_set_def KnowledgeCache_get_def
        ttl_or_default_def)
  have lru: "lru_key (access_times C) = ''b''"
    unfolding run by (simp add: lru_key_def)
  have full: "(2::int) \<le> int (length (cache C))"
    unfolding run by simp
  have d: "distinct (map item_key ?items) \<and> int (length ?items) = 2 + 1"
    by (simp add: item_key_def)
  have one: "(1::int) \<le> 2"
    by simp
  note t = bounded_cache_capacity [of 2 C ?xs 60 5 5 "''c''" 30 None ?items, OF one C_def]
  have "KnowledgeCache_set 5 5 ''c'' 30 None C
      = Inr (store 5 5 ''c'' 30 None (evicted (lru_key (access_times C)) C))"
    using t full by blast
  then have "KnowledgeCache_set 5 5 ''c'' 30 None C
      = Inr (store 5 5 ''c'' 30 None (evicted ''b'' C))"
    by (simp only: lru)
  then have set: "KnowledgeCache_set 5 5 ''c'' 30 None C
     = Inr \<lparr>cache = [(''a'', \<lparr>stored = 10, expires = 61\<rparr>), (''c'', \<lparr>stored = 30, expires = 65\<rparr>)],
        max_size = 2, ttl = 60, access_times = [(''a'', 4), (''c'', 5)]\<rparr>"
    unfolding run by (simp add: store_def evicted_def dict_del_def ttl_or_default_def)
  have all: "\<exists>c'. set_all ?items (KnowledgeCache_init 2 60) = Inr c' \<and> int (length (cache c')) = 2"
    using t d by blast
  show ?thesis
    using run set all unfolding C_def by blast
qed

text \<open>
  C5. On a cache object, \<open>set k v t\<close> returns, and a following \<open>get k\<close> whose clock
  reading is below the expiry \<open>t1 + ttl\<close> returns \<open>v\<close> and keeps the entry: at the
  very reading of the \<open>set\<close> whenever the time-to-live in force is positive. Once the
  reading has reached the expiry, \<open>get k\<close> returns \<open>None\<close> and the key is gone from
  both dictionaries. For any stored entry, \<open>get\<close> returns its value exactly while the
  reading is below its expiry, and evicts it otherwise.
\<close>

theorem get_after_set:
  fixes c :: "('k, 'v) KnowledgeCache"
  assumes "kc_inv c"
  shows "\<exists>c'. KnowledgeCache_set t1 t2 k v t c = Inr c'
      \<and> (0 < ttl_or_default t (ttl c) \<longrightarrow> fst (KnowledgeCache_get t1 t3 k c') = Some v)
      \<and> (\<forall>now t4. now < t1 + ttl_or_default t (ttl c) \<longrightarrow>
            fst (KnowledgeCache_get now t4 k c') = Some v
            \<and> cache (snd (KnowledgeCache_get now t4 k c')) = cache c')
      \<and> (\<forall>now t4. t1 + ttl_or_default t (ttl c) \<le> now \<longrightarrow>
            fst (KnowledgeCache_get now t4 k c') = None
            \<and> k \<notin> keys (cache (snd (KnowledgeCache_get now t4 k c')))
            \<and> k \<notin> keys (access_times (snd (KnowledgeCache_get now t4 k c'))))
      \<and> (\<forall>e now t4. map_of (cache c) k = Some e \<longrightarrow>
            KnowledgeCache_get now t4 k c =
              (if now < expires e
               then (Some (stored e), c\<lparr>access_times := dict_set (access_times c) k t4\<rparr>)
               else (None, evicted k c)))"
proof -
  let ?e = "(if max_size c \<le> int (length (cache c)) \<and> cache c \<noteq> []
       then evicted (lru_key (access_times c)) c else c)"
  let ?c' = "store t1 t2 k v t ?e"
  let ?x = "t1 + ttl_or_default t (ttl c)"
  have eq: "KnowledgeCache_set t1 t2 k v t c = Inr ?c'"
    using assms by (rule set_eq)
  have "ttl ?e = ttl c"
    by simp
  then have entry: "map_of (cache ?c') k = Some \<lparr>stored = v, expires = ?x\<rparr>"
    by (simp add: store_def)
  have hit: "fst (KnowledgeCache_get now t4 k ?c') = Some v
      \<and> cache (snd (KnowledgeCache_get now t4 k ?c')) = cache ?c'" if "now < ?x" for now t4
    using that entry by (simp add: KnowledgeCache_get_def)
  have miss: "fst (KnowledgeCache_get now t4 k ?c') = None
      \<and> k \<notin> keys (cache (snd (KnowledgeCache_get now t4 k ?c')))
      \<and> k \<notin> keys (access_times (snd (KnowledgeCache_get now t4 k ?c')))" if "?x \<le> now" for now t4
    using that entry by (simp add: KnowledgeCache_get_def)
  have at_once: "fst (KnowledgeCache_get t1 t3 k ?c') = Some v" if "0 < ttl_or_default t (ttl c)"
    using that hit [of t1 t3] by simp
  have gen: "KnowledgeCache_get now t4 k c =
      (if now < expires e
       then (Some (stored e), c\<lparr>access_times := dict_set (access_times c) k t4\<rparr>)
       else (None, evicted k c))" if "map_of (cache c) k = Some e" for e now t4
    using that by (simp add: KnowledgeCache_get_def evicted_def)
  show ?thesis
    using eq hit miss at_once gen by blast
qed

theorem get_after_set_witness:
  "KnowledgeCache_set 100 100 ''k'' (7::nat) (Some 30) (KnowledgeCache_init 2 60)
     = Inr \<lparr>cache = [(''k'', \<lparr>stored = 7, expires = 130\<rparr>)], max_size = 2, ttl = 60,
            access_times = [(''k'', 100)]\<rparr>
   \<and> fst (KnowledgeCache_get 100 100 ''k''
        \<lparr>cache = [(''k'', \<lparr>stored = 7::nat, expires = 130\<rparr>)], max_size = 2, ttl = 60,
            access_times = [(''k'', 100)]\<rparr>) = Some 7
   \<and> fst (KnowledgeCache_get 129 129 ''k''
        \<lparr>cache = [(''k'', \<lparr>stored = 7::nat, expires = 130\<rparr>)], max_size = 2, ttl = 60,
            access_times = [(''k'', 100)]\<rparr>) = Some 7
   \<and> KnowledgeCache_get 130 130 ''k''
        \<lparr>cache = [(''k'', \<lparr>stored = 7::nat, expires = 130\<rparr>)], max_size = 2, ttl = 60,
            access_times = [(''k'', 100)]\<rparr>
     = (None, \<lparr>cache = [], max_size = 2, ttl = 60, access_times = []\<rparr>)"
proof -
  let ?c = "KnowledgeCache_init 2 60 :: (string, nat) KnowledgeCache"
  let ?c' = "\<lparr>cache = [(''k'', \<lparr>stored = 7::nat, expires = 130\<rparr>)], max_size = 2, ttl = 60,
            access_times = [(''k'', 100)]\<rparr>"
  have inv: "kc_inv ?c"
    by (simp add: kc_inv_def KnowledgeCache_init_def)
  have set: "KnowledgeCache_set 100 100 ''k'' (7::nat) (Some 30) ?c = Inr ?c'"
    by (simp add: KnowledgeCache_set_def KnowledgeCache_init_def ttl_or_default_def)
  have d: "ttl_or_default (Some 30) (ttl ?c) = 30"
    by (simp add: ttl_or_default_def)
  note t = get_after_set [OF inv, of 100 100 "''k''" 7 "Some 30" 100, unfolded set d]
  have a: "fst (KnowledgeCache_get 100 100 ''k'' ?c') = Some 7"
    using t by simp
  have b: "fst (KnowledgeCache_get 129 129 ''k'' ?c') = Some 7"
    using t by simp
  have "fst (KnowledgeCache_get 130 130 ''k'' ?c') = None"
    using t by simp
  moreover have "snd (KnowledgeCache_get 130 130 ''k'' ?c')
      = \<lparr>cache = [], max_size = 2, ttl = 60, access_times = []\<rparr>"
    by (simp add: KnowledgeCache_get_def dict_del_def)
  ultimately have c: "KnowledgeCache_get 130 130 ''k'' ?c'
      = (None, \<lparr>cache = [], max_size = 2, ttl = 60, access_times = []\<rparr>)"
    by (simp add: prod_eq_iff)
  show ?thesis
    using set a b c by simp
qed

text \<open>
  C9. When \<open>set k v\<close> is called on a cache at capacity that already holds \<open>k\<close>, the
  least recently accessed key \<open>j\<close> is evicted before \<open>k\<close> is written; if \<open>j\<close> differs
  from \<open>k\<close> the call drops \<open>j\<close>, overwrites \<open>k\<close>, and leaves \<open>max_size - 1\<close>
  entries, one fewer than before.
\<close>

theorem set_present_key_at_capacity:
  fixes c :: "('k, 'v) KnowledgeCache"
  assumes "kc_inv c" and "int (length (cache c)) = max_size c" and "k \<in> keys (cache c)"
    and "lru_key (access_times c) = j"
  shows "KnowledgeCache_set t1 t2 k v t c = Inr (store t1 t2 k v t (evicted j c))
      \<and> j \<in> keys (cache c)
      \<and> (j \<noteq> k \<longrightarrow>
            keys (cache (store t1 t2 k v t (evicted j c))) = keys (cache c) - {j}
            \<and> int (length (cache (store t1 t2 k v t (evicted j c)))) = max_size c - 1)"
proof -
  have ne: "cache c \<noteq> []"
    using assms(3) by (auto simp: keys_def)
  then have eq: "KnowledgeCache_set t1 t2 k v t c = Inr (store t1 t2 k v t (evicted j c))"
    using assms(1,2,4) by (simp add: set_eq)
  have "access_times c \<noteq> []"
    using ne assms(1) by (simp add: kc_inv_empty_iff)
  then have j: "j \<in> keys (cache c)"
    using lru_key_mem [of "access_times c"] assms(1,4) by (simp add: kc_inv_def)
  have other: "keys (cache (store t1 t2 k v t (evicted j c))) = keys (cache c) - {j}
      \<and> int (length (cache (store t1 t2 k v t (evicted j c)))) = max_size c - 1"
    if "j \<noteq> k"
  proof -
    have k: "k \<in> keys (cache (evicted j c))"
      using assms(3) that by (simp add: keys_evicted)
    then have ks: "keys (cache (store t1 t2 k v t (evicted j c))) = keys (cache c) - {j}"
      by (auto simp: keys_store keys_evicted)
    have "Suc (length (cache (evicted j c))) = length (cache c)"
      using length_evicted [OF assms(1) ne] assms(4) by simp
    then have "int (length (cache (store t1 t2 k v t (evicted j c)))) = max_size c - 1"
      using k assms(2) by (simp add: length_store)
    then show ?thesis
      using ks by simp
  qed
  show ?thesis
    using eq j other by simp
qed

theorem set_present_key_at_capacity_witness:
  "KnowledgeCache_set 5 5 ''a'' (11::nat) None
     \<lparr>cache = [(''a'', \<lparr>stored = 10, expires = 61\<rparr>), (''b'', \<lparr>stored = 20, expires = 63\<rparr>)],
      max_size = 2, ttl = 60, access_times = [(''a'', 4), (''b'', 3)]\<rparr>
   = Inr \<lparr>cache = [(''a'', \<lparr>stored = 11, expires = 65\<rparr>)],
      max_size = 2, ttl = 60, access_times = [(''a'', 5)]\<rparr>"
proof -
  let ?c = "\<lparr>cache = [(''a'', \<lparr>stored = 10::nat, expires = 61\<rparr>), (''b'', \<lparr>stored = 20, expires = 63\<rparr>)],
      max_size = 2, ttl = 60, access_times = [(''a'', 4), (''b'', 3)]\<rparr>"
  have h: "kc_inv ?c" "int (length (cache ?c)) = max_size ?c" "''a'' \<in> keys (cache ?c)"
    "lru_key (access_times ?c) = ''b''"
    by (simp_all add: kc_inv_def keys_def lru_key_def)
  have "KnowledgeCache_set 5 5 ''a'' (11::nat) None ?c
      = Inr (store 5 5 ''a'' 11 None (evicted ''b'' ?c))"
    using set_present_key_at_capacity [OF h] by simp
  then show ?thesis
    by (simp add: store_def evicted_def dict_del_def ttl_or_default_def)
qed

section \<open>Properties of the knowledge aggregator\<close>

lemma collect_both:
  "collect [(WikiTask, w), (KbTask, k)] (([], []), ([], [])) = (contribution w, contribution k)"
  "collect [(KbTask, k), (WikiTask, w)] (([], []), ([], [])) = (contribution w, contribution k)"
  by (cases w; cases k; simp add: contribution_def)+

text \<open>
  C1. When both provider tasks finish before the deadline, in whichever order the loop
  meets them, the aggregator returns the static provider's result if its text is
  non-empty, whatever the encyclopedic provider returned, else the encyclopedic
  provider's result if its text is non-empty, else the empty result. A provider that
  raised counts as one that returned the empty result, and the aggregator returns a
  result in every case, also when waiting itself raises.
\<close>

theorem retrieve_knowledge_policy:
  "retrieve_knowledge (Inr [(WikiTask, w), (KbTask, k)])
     = Inr (selection_policy (contribution k) (contribution w))
   \<and> retrieve_knowledge (Inr [(KbTask, k), (WikiTask, w)])
     = Inr (selection_policy (contribution k) (contribution w))
   \<and> contribution (Inl err) = contribution (Inr ([], []))
   \<and> retrieve_knowledge (Inr [(WikiTask, Inr (wt, wi)), (KbTask, Inr (kt, ki))])
     = Inr (if ki \<noteq> [] then (kt, ki) else if wi \<noteq> [] then (wt, wi) else ([], []))
   \<and> (\<exists>r. retrieve_knowledge waited = Inr r)"
proof -
  have a: "retrieve_knowledge (Inr [(WikiTask, w), (KbTask, k)])
      = Inr (selection_policy (contribution k) (contribution w))"
    by (simp add: retrieve_knowledge_def retrieve_knowledge_body_def collect_both
        best_available_def selection_policy_def)
  have b: "retrieve_knowledge (Inr [(KbTask, k), (WikiTask, w)])
      = Inr (selection_policy (contribution k) (contribution w))"
    by (simp add: retrieve_knowledge_def retrieve_knowledge_body_def collect_both
        best_available_def selection_policy_def)
  have c: "contribution (Inl err) = contribution (Inr ([], []))"
    by (simp add: contribution_def)
  have d: "retrieve_knowledge (Inr [(WikiTask, Inr (wt, wi)), (KbTask, Inr (kt, ki))])
      = Inr (if ki \<noteq> [] then (kt, ki) else if wi \<noteq> [] then (wt, wi) else ([], []))"
    by (simp add: retrieve_knowledge_def retrieve_knowledge_body_def best_available_def)
  have e: "\<exists>r. retrieve_knowledge waited = Inr r"
    by (simp add: retrieve_knowledge_def split: sum.split)
  show ?thesis
    using a b c d e by simp
qed

section \<open>Properties of the generation client\<close>

lemma chat_attempts_all_fail:
  assumes "\<And>n. n \<le> max_retries \<Longrightarrow> client n = Failed (errs n)"
  shows "retries \<le> max_retries \<Longrightarrow>
    chat_attempts client stream message max_retries retries
      = fallback_or_raise message (errs max_retries)"
proof (induction "max_retries - retries" arbitrary: retries)
  case 0
  then have "retries = max_retries" by simp
  then show ?case
    using assms [of max_retries]
    by (simp add: chat_attempts.simps [of _ _ _ max_retries max_retries] fallback_or_raise_def)
next
  case (Suc d)
  then have lt: "retries < max_retries" and d: "d = max_retries - Suc retries"
    by simp_all
  have "chat_attempts client stream message max_retries retries
      = chat_attempts client stream message max_retries (Suc retries)"
    using assms [of retries] lt
    by (simp add: chat_attempts.simps [of _ _ _ max_retries retries])
  also have "\<dots> = fallback_or_raise message (errs max_retries)"
    using Suc.hyps(1) [OF d] lt by simp
  finally show ?case .
qed

lemma chat_all_fail:
  assumes "\<And>n. n \<le> length retry_backoff \<Longrightarrow> client n = Failed (errs n)"
    and "stream \<or> cached = None \<or> cached = Some []"
  shows "chat client cached message stream retry_on_error
      = fallback_or_raise message (errs (if retry_on_error then length retry_backoff else 0))"
proof -
  let ?m = "if retry_on_error then length retry_backoff else 0"
  have "chat_attempts client stream message ?m 0 = fallback_or_raise message (errs ?m)"
    by (rule chat_attempts_all_fail) (auto intro: assms(1) split: if_splits)
  moreover have "chat client cached message stream retry_on_error
      = chat_attempts client stream message ?m 0"
    using assms(2) by (auto simp: chat_def Let_def)
  ultimately show ?thesis by simp
qed

lemma distinct_fallback_keys: "distinct (map fst fallback_responses)"
  by (simp add: fallback_responses_def)

lemma first_fallback_None:
  "first_fallback m d = None \<longleftrightarrow> (\<forall>key \<in> keys d. \<not> contains key m)"
proof (induction d)
  case Nil
  then show ?case by (simp add: keys_def)
next
  case (Cons p d)
  obtain k f where p: "p = (k, f)" by (cases p)
  have "keys (p # d) = insert k (keys d)"
    using p by (simp add: keys_def)
  then show ?case
    using Cons p by simp
qed

lemma first_fallback_first:
  "distinct (map fst d) \<Longrightarrow> map_of d key = Some fb \<Longrightarrow> contains key m \<Longrightarrow>
   \<forall>k \<in> set (keys_before key d). \<not> contains k m \<Longrightarrow> first_fallback m d = Some fb"
proof (induction d)
  case Nil
  then show ?case by simp
next
  case (Cons p d)
  obtain k f where p: "p = (k, f)" by (cases p)
  show ?case
  proof (cases "k = key")
    case True
    then show ?thesis using Cons.prems p by simp
  next
    case False
    then have "\<not> contains k m"
      using Cons.prems(4) p by (simp add: keys_before_def)
    moreover have "\<forall>k \<in> set (keys_before key d). \<not> contains k m"
      using Cons.prems(4) p False by (simp add: keys_before_def)
    ultimately show ?thesis
      using Cons p False by simp
  qed
qed

lemma first_fallback_Some:
  "first_fallback m d = Some fb \<Longrightarrow> \<exists>key. (key, fb) \<in> set d \<and> contains key m"
  by (induction d) (auto split: if_splits)

text \<open>
  C2, as the code has it. When the response cache gives no text and every call of the
  upstream client fails, \<open>chat\<close> returns the fallback text of the first keyword of the
  table, in table order, that the lower-cased message contains: for a keyword that the
  message contains while it contains no earlier keyword of the table, exactly the text
  configured for it, and so for \<open>sport\<close>, the first keyword, whenever the message
  contains it. Every text returned is the text of some keyword that the message
  contains, and \<^verbatim>\<open>LLMError\<close> is raised exactly when the message contains no keyword
  of the table.
\<close>

theorem chat_first_fallback:
  assumes "\<forall>n \<le> length retry_backoff. client n = Failed (errs n)"
    and "stream \<or> cached = None \<or> cached = Some []"
  shows "(map_of fallback_responses key = Some fb \<and> contains key (lower message)
            \<and> (\<forall>k \<in> set (keys_before key fallback_responses). \<not> contains k (lower message))
          \<longrightarrow> chat client cached message stream retry_on_error = Inr (Text fb))
       \<and> (contains ''sport'' (lower message)
          \<longrightarrow> (\<exists>fb. map_of fallback_responses ''sport'' = Some fb
                 \<and> chat client cached message stream retry_on_error = Inr (Text fb)))
       \<and> ((\<exists>err. chat client cached message stream retry_on_error = Inl err)
            \<longleftrightarrow> (\<forall>k \<in> keys fallback_responses. \<not> contains k (lower message)))
       \<and> (\<forall>fb'. chat client cached message stream retry_on_error = Inr fb' \<longrightarrow>
            (\<exists>k f. (k, f) \<in> set fallback_responses \<and> contains k (lower message)
               \<and> fb' = Text f))"
proof -
  let ?r = "chat client cached message stream retry_on_error"
  let ?e = "errs (if retry_on_error then length retry_backoff else 0)"
  have eq: "?r = fallback_or_raise message ?e"
    using assms by (intro chat_all_fail) simp_all
  have one: "?r = Inr (Text fb)"
    if "map_of fallback_responses key = Some fb" "contains key (lower message)"
      "\<forall>k \<in> set (keys_before key fallback_responses). \<not> contains k (lower message)"
  proof -
    have "first_fallback (lower message) fallback_responses = Some fb"
      using distinct_fallback_keys that by (rule first_fallback_first)
    then show ?thesis
      using eq by (simp add: fallback_or_raise_def)
  qed
  have two: "(\<exists>err. ?r = Inl err)
      \<longleftrightarrow> (\<forall>k \<in> keys fallback_responses. \<not> contains k (lower message))"
    unfolding eq fallback_or_raise_def first_fallback_None [symmetric]
    by (simp split: option.split)
  have three: "\<exists>k f. (k, f) \<in> set fallback_responses \<and> contains k (lower message) \<and> fb' = Text f"
    if "?r = Inr fb'" for fb'
  proof (cases "first_fallback (lower message) fallback_responses")
    case None
    then show ?thesis using that eq by (simp add: fallback_or_raise_def)
  next
    case (Some f)
    then have "fb' = Text f"
      using that eq by (simp add: fallback_or_raise_def)
    then show ?thesis
      using first_fallback_Some [OF Some] by blast
  qed
  have sport: "\<exists>fb. map_of fallback_responses ''sport'' = Some fb \<and> ?r = Inr (Text fb)"
    if has: "contains ''sport'' (lower message)"
  proof -
    obtain fb where fb: "map_of fallback_responses ''sport'' = Some fb"
      by (simp add: fallback_responses_def)
    have "\<forall>k \<in> set (keys_before ''sport'' fallback_responses). \<not> contains k (lower message)"
      by (simp add: keys_before_def fallback_responses_def)
    then have "first_fallback (lower message) fallback_responses = Some fb"
      using distinct_fallback_keys fb has by (intro first_fallback_first)
    then have "?r = Inr (Text fb)"
      using eq by (simp add: fallback_or_raise_def)
    then show ?thesis
      using fb by blast
  qed
  show ?thesis
    using one two three sport by blast
qed

lemma lower_I_like_Sport: "lower ''I like Sport'' = ''i like sport''"
  by (simp add: lower_def lower_char_def upper_letters_def lower_letters_def)

theorem chat_first_fallback_witness:
  "chat (\<lambda>n. Failed ''upstream down'') None ''I like Sport'' False True
     = Inr (Text (''I know that sports are a popular topic. However, I'm having trouble '' @
       ''accessing my knowledge services right now. Sports include activities '' @
       ''like football, basketball, cricket, tennis, and many others with '' @
       ''different rules, competitions, and famous athletes.''))"
proof -
  have fail: "\<forall>n \<le> length retry_backoff. (\<lambda>n. Failed ''upstream down'') n = Failed ((\<lambda>n. ''upstream down'') n)"
    by simp
  have miss: "False \<or> (None :: string option) = None \<or> (None :: string option) = Some []"
    by simp
  have key: "map_of fallback_responses ''sport''
      = Some (''I know that sports are a popular topic. However, I'm having trouble '' @
       ''accessing my knowledge services right now. Sports include activities '' @
       ''like football, basketball, cricket, tennis, and many others with '' @
       ''different rules, competitions, and famous athletes.'')"
    by (simp add: fallback_responses_def)
  have has: "contains ''sport'' (lower ''I like Sport'')"
    unfolding lower_I_like_Sport by (simp add: startswith_def)
  have before: "\<forall>k \<in> set (keys_before ''sport'' fallback_responses). \<not> contains k (lower ''I like Sport'')"
    by (simp add: keys_before_def fallback_responses_def)
  show ?thesis
    using chat_first_fallback [OF fail miss, of "''sport''" _ "''I like Sport''" True] key has before
    by blast
qed

lemma lower_sports_science: "lower ''sports science'' = ''sports science''"
  by (simp add: lower_def lower_char_def upper_letters_def lower_letters_def)

theorem chat_fallback_for_keyword_counterexample:
  "contains ''science'' (lower ''sports science'')
   \<and> map_of fallback_responses ''science''
       = Some (''Science encompasses fields like physics, chemistry, biology, '' @
           ''astronomy, and more. I'm having trouble connecting to my knowledge '' @
           ''services right now, but I'd be happy to try a more specific '' @
           ''scientific question shortly.'')
   \<and> chat (\<lambda>n. Failed ''upstream down'') None ''sports science'' False True
       = Inr (Text (''I know that sports are a popular topic. However, I'm having trouble '' @
           ''accessing my knowledge services right now. Sports include activities '' @
           ''like football, basketball, cricket, tennis, and many others with '' @
           ''different rules, competitions, and famous athletes.''))
   \<and> chat (\<lambda>n. Failed ''upstream down'') None ''sports science'' False True
       \<noteq> Inr (Text (''Science encompasses fields like physics, chemistry, biology, '' @
           ''astronomy, and more. I'm having trouble connecting to my knowledge '' @
           ''services right now, but I'd be happy to try a more specific '' @
           ''scientific question shortly.''))"
proof -
  have has: "contains ''science'' (lower ''sports science'')"
    unfolding lower_sports_science by (simp add: startswith_def)
  have key: "map_of fallback_responses ''science''
       = Some (''Science encompasses fields like physics, chemistry, biology, '' @
           ''astronomy, and more. I'm having trouble connecting to my knowledge '' @
           ''services right now, but I'd be happy to try a more specific '' @
           ''scientific question shortly.'')"
    by (simp add: fallback_responses_def)
  have "first_fallback (lower ''sports science'') fallback_responses
      = Some (''I know that sports are a popular topic. However, I'm having trouble '' @
           ''accessing my knowledge services right now. Sports include activities '' @
           ''like football, basketball, cricket, tennis, and many others with '' @
           ''different rules, competitions, and famous athletes.'')"
    unfolding lower_sports_science by (simp add: fallback_responses_def startswith_def)
  moreover have "chat (\<lambda>n. Failed ''upstream down'') None ''sports science'' False True
      = fallback_or_raise ''sports science'' ((\<lambda>n. ''upstream down'') (if True then length retry_backoff else 0))"
    by (rule chat_all_fail) simp_all
  ultimately have run: "chat (\<lambda>n. Failed ''upstream down'') None ''sports science'' False True
       = Inr (Text (''I know that sports are a popular topic. However, I'm having trouble '' @
           ''accessing my knowledge services right now. Sports include activities '' @
           ''like football, basketball, cricket, tennis, and many others with '' @
           ''different rules, competitions, and famous athletes.''))"
    by (simp add: fallback_or_raise_def)
  have ne: "chat (\<lambda>n. Failed ''upstream down'') None ''sports science'' False True
       \<noteq> Inr (Text (''Science encompasses fields like physics, chemistry, biology, '' @
           ''astronomy, and more. I'm having trouble connecting to my knowledge '' @
           ''services right now, but I'd be happy to try a more specific '' @
           ''scientific question shortly.''))"
    unfolding run by simp
  show ?thesis
    using has key run ne by blast
qed

section \<open>Properties of the encyclopedic provider\<close>

lemma length_re_sub: "length r \<le> 1 \<Longrightarrow> length (re_sub m r s) \<le> length s"
proof (induction m r s rule: re_sub.induct)
  case (1 m r)
  then show ?case by simp
next
  case (2 m r c s)
  show ?case
  proof (cases "m (c # s)")
    case None
    then show ?thesis using 2 by simp
  next
    case (Some rest)
    show ?thesis
    proof (cases "length rest < length (c # s)")
      case True
      then have "length (re_sub m r rest) \<le> length rest"
        using 2 Some by simp
      then show ?thesis
        using Some True "2.prems" by simp
    next
      case False
      then show ?thesis using 2 Some by simp
    qed
  qed
qed

lemma length_strip: "length (strip s) \<le> length s"
proof -
  have "length (dropWhile isspace (rev (dropWhile isspace s))) \<le> length (rev (dropWhile isspace s))"
    by (rule length_dropWhile_le)
  also have "\<dots> \<le> length s"
    by (simp add: length_dropWhile_le)
  finally show ?thesis
    by (simp add: strip_def)
qed

lemma length_clean_content: "length (clean_content s) \<le> length s"
proof -
  have "length (clean_content s)
      \<le> length (re_sub match_marker [] (re_sub match_spaces '' '' (re_sub match_ref [] s)))"
    unfolding clean_content_def by (rule length_strip)
  also have "\<dots> \<le> length (re_sub match_spaces '' '' (re_sub match_ref [] s))"
    by (rule length_re_sub) simp
  also have "\<dots> \<le> length (re_sub match_ref [] s)"
    by (rule length_re_sub) simp
  also have "\<dots> \<le> length s"
    by (rule length_re_sub) simp
  finally show ?thesis .
qed

lemma length_extract_summary: "extract_summary page_content = Some s \<Longrightarrow> length s \<le> 1003"
  by (auto simp: extract_summary_def Let_def split: if_splits)

lemma re_sub_no_match: "(\<And>c t. c \<in> set s \<Longrightarrow> m (c # t) = None) \<Longrightarrow> re_sub m r s = s"
  by (induction s) simp_all

lemma split_blank_no_newline: "newline \<notin> set s \<Longrightarrow> split_blank cur s = [cur @ s]"
  by (induction cur s rule: split_blank.induct) auto

lemma take_min_3: "take (min 3 (length ps)) ps = take 3 ps"
  by (simp add: min_def)

lemma get_no_truthy:
  assumes "no_truthy key c"
  shows "\<not> truthy (fst (KnowledgeCache_get t t' key c))"
    and "no_truthy key (snd (KnowledgeCache_get t t' key c))"
  using assms
  by (auto simp: no_truthy_def KnowledgeCache_get_def split: option.splits)

lemma set_stores:
  assumes "kc_inv c"
  shows "\<exists>c'. KnowledgeCache_set t t' key v tt c = Inr c' \<and> kc_inv c'
     \<and> map_of (cache c') key = Some \<lparr>stored = v, expires = t + ttl_or_default tt (ttl c)\<rparr>"
proof -
  let ?e = "(if max_size c \<le> int (length (cache c)) \<and> cache c \<noteq> []
       then evicted (lru_key (access_times c)) c else c)"
  have "KnowledgeCache_set t t' key v tt c = Inr (store t t' key v tt ?e)"
    using assms by (rule set_eq)
  moreover have "kc_inv (store t t' key v tt ?e)"
    using assms by (simp add: kc_inv_store kc_inv_evicted)
  moreover have "ttl ?e = ttl c"
    by simp
  then have "map_of (cache (store t t' key v tt ?e)) key
      = Some \<lparr>stored = v, expires = t + ttl_or_default tt (ttl c)\<rparr>"
    by (simp add: store_def)
  ultimately show ?thesis by blast
qed

lemma get_ttl [simp]: "ttl (snd (KnowledgeCache_get t t' key c)) = ttl c"
  by (simp add: KnowledgeCache_get_def split: option.splits)

lemma fetch_summary_extract:
  "page up = Inr (page_content, page_summary) \<Longrightarrow> extract_summary page_content = Some s \<Longrightarrow>
   fetch_summary up = (Inr s, 1)"
  by (simp add: fetch_summary_def)

lemma get_page_summary_fetched:
  assumes "title \<noteq> [] \<and> strip title \<noteq> []"
    and "kc_inv (wiki_cache svc)"
    and "\<not> truthy (fst (KnowledgeCache_get (fst tg) (snd tg) (summary_cache_key title sentences)
            (wiki_cache svc)))"
    and "fetch_summary up = (Inr fetched, n)"
  shows "returned (get_page_summary up tg ts title sentences svc)
           = Inr (Some (Summary (clean_content fetched)))"
    and "upstream_calls (get_page_summary up tg ts title sentences svc) = n"
    and "kc_inv (wiki_cache (service (get_page_summary up tg ts title sentences svc)))"
    and "map_of (cache (wiki_cache (service (get_page_summary up tg ts title sentences svc))))
           (summary_cache_key title sentences)
         = Some \<lparr>stored = Summary (clean_content fetched),
                  expires = fst ts + 7 * 86400\<rparr>"
proof -
  let ?key = "summary_cache_key title sentences"
  obtain cached c1 where g: "KnowledgeCache_get (fst tg) (snd tg) ?key (wiki_cache svc) = (cached, c1)"
    by (cases "KnowledgeCache_get (fst tg) (snd tg) ?key (wiki_cache svc)")
  have miss: "\<not> truthy cached"
    using assms(3) g by simp
  have "kc_inv (snd (KnowledgeCache_get (fst tg) (snd tg) ?key (wiki_cache svc)))"
    using assms(2) by (rule kc_inv_get)
  then have inv1: "kc_inv c1"
    using g by simp
  obtain c2 where c2: "KnowledgeCache_set (fst ts) (snd ts) ?key (Summary (clean_content fetched))
        (Some (7 * 86400)) c1 = Inr c2" "kc_inv c2"
      "map_of (cache c2) ?key = Some \<lparr>stored = Summary (clean_content fetched),
         expires = fst ts + ttl_or_default (Some (7 * 86400)) (ttl c1)\<rparr>"
    using set_stores [OF inv1] by blast
  have r: "get_page_summary up tg ts title sentences svc
      = \<lparr>returned = Inr (Some (Summary (clean_content fetched))), upstream_calls = n,
         service = svc\<lparr>wiki_cache := c2\<rparr>\<rparr>"
    using assms(1,4) g miss c2(1) by (simp add: get_page_summary_def Let_def)
  show "returned (get_page_summary up tg ts title sentences svc)
           = Inr (Some (Summary (clean_content fetched)))"
    and "upstream_calls (get_page_summary up tg ts title sentences svc) = n"
    and "kc_inv (wiki_cache (service (get_page_summary up tg ts title sentences svc)))"
    and "map_of (cache (wiki_cache (service (get_page_summary up tg ts title sentences svc))))
           (summary_cache_key title sentences)
         = Some \<lparr>stored = Summary (clean_content fetched),
                  expires = fst ts + 7 * 86400\<rparr>"
    using r c2(2,3) by (simp_all add: ttl_or_default_def)
qed

lemma strip_plain: "s \<noteq> [] \<Longrightarrow> \<not> isspace (hd s) \<Longrightarrow> \<not> isspace (last s) \<Longrightarrow> strip s = s"
proof -
  assume s: "s \<noteq> []" and h: "\<not> isspace (hd s)" and l: "\<not> isspace (last s)"
  have "dropWhile isspace s = s"
    using s h by (cases s) simp_all
  moreover have "dropWhile isspace (rev s) = rev s"
    using s l by (cases "rev s") (simp_all add: last_rev [symmetric] hd_rev)
  ultimately show ?thesis
    by (simp add: strip_def)
qed

lemma clean_content_plain:
  assumes "s \<noteq> []"
    and "\<And>c. c \<in> set s \<Longrightarrow> \<not> isspace c \<and> c \<noteq> CHR ''['' \<and> c \<noteq> CHR ''=''"
  shows "clean_content s = s"
proof -
  have a: "re_sub match_ref [] s = s"
    by (rule re_sub_no_match) (use assms(2) in \<open>simp add: match_ref_def\<close>)
  have b: "re_sub match_spaces '' '' s = s"
    by (rule re_sub_no_match) (use assms(2) in \<open>simp add: match_spaces_def\<close>)
  have c: "re_sub match_marker [] s = s"
    by (rule re_sub_no_match) (use assms(2) in \<open>simp add: match_marker_def split: list.split\<close>)
  have "\<not> isspace (hd s)" "\<not> isspace (last s)"
    using assms by simp_all
  then have "strip s = s"
    using assms(1) by (intro strip_plain)
  then show ?thesis
    by (simp add: clean_content_def a b c)
qed

text \<open>
  C8, as the code has it. For a page whose content is retrieved on a cache miss and
  has a paragraph of more than 50 characters, the summary returned is the cleaned form
  of the extract: the first (up to three) such paragraphs joined by blank lines, and,
  when that text is longer than 1000 characters, its first 1000 characters followed by
  an ellipsis of three. The summary returned has at most 1003 characters; one call is
  made to the package.
\<close>

theorem page_summary_extract:
  assumes "title \<noteq> [] \<and> strip title \<noteq> []"
    and "kc_inv (wiki_cache svc)"
    and "\<not> truthy (fst (KnowledgeCache_get (fst tg) (snd tg) (summary_cache_key title sentences)
            (wiki_cache svc)))"
    and "page up = Inr (page_content, page_summary)"
    and "paragraphs = filter (\<lambda>p. 50 < length p) (split_blank [] page_content)"
    and "paragraphs \<noteq> []"
    and "joined = join [newline, newline] (take 3 paragraphs)"
  shows "returned (get_page_summary up tg ts title sentences svc)
           = Inr (Some (Summary (clean_content
               (if 1000 < length joined then take 1000 joined @ ''...'' else joined))))
       \<and> length (clean_content
               (if 1000 < length joined then take 1000 joined @ ''...'' else joined)) \<le> 1003
       \<and> upstream_calls (get_page_summary up tg ts title sentences svc) = 1"
proof -
  let ?s = "if 1000 < length joined then take 1000 joined @ ''...'' else joined"
  have ex: "extract_summary page_content = Some ?s"
    using assms(5,6,7) by (simp add: extract_summary_def Let_def take_min_3)
  then have f: "fetch_summary up = (Inr ?s, 1)"
    using assms(4) by (intro fetch_summary_extract)
  have "length (clean_content ?s) \<le> length ?s"
    by (rule length_clean_content)
  also have "\<dots> \<le> 1003"
    using ex by (rule length_extract_summary)
  finally have len: "length (clean_content ?s) \<le> 1003" .
  show ?thesis
    using get_page_summary_fetched(1,2) [OF assms(1,2,3) f] len by simp
qed

lemma fresh_miss:
  "\<not> truthy (fst (KnowledgeCache_get t t' key (wiki_cache (WikipediaService_init x))))"
  by (simp add: WikipediaService_init_def KnowledgeCache_init_def KnowledgeCache_get_def)

lemma fresh_inv: "kc_inv (wiki_cache (WikipediaService_init x))"
  by (simp add: WikipediaService_init_def kc_inv_init)

lemma strip_Moon: "strip ''Moon'' = ''Moon''"
  by (simp add: strip_def isspace_def code_def)

theorem page_summary_extract_witness:
  "returned (get_page_summary
      \<lparr>page = Inr (''The Moon is Earth's only natural satellite.[1] It orbits at 384400 km.'' @
                    [newline, newline] @ ''Short paragraph.'' @ [newline, newline] @
                    ''== Names ==  The usual English proper name is the Moon, with a capital M.'',
                   Inr ''The Moon.''),
       short = Inr ''The Moon.''\<rparr>
      (0, 0) (0, 0) ''Moon'' 5 (WikipediaService_init 8))
   = Inr (Some (Summary (''The Moon is Earth's only natural satellite. It orbits at 384400 km.  '' @
        ''The usual English proper name is the Moon, with a capital M.'')))"
proof -
  let ?p1 = "''The Moon is Earth's only natural satellite.[1] It orbits at 384400 km.''"
  let ?p3 = "''== Names ==  The usual English proper name is the Moon, with a capital M.''"
  let ?page_content = "?p1 @ [newline, newline] @ ''Short paragraph.'' @ [newline, newline] @ ?p3"
  let ?up = "\<lparr>page = Inr (?page_content, Inr ''The Moon.''), short = Inr ''The Moon.''\<rparr>"
  have t: "''Moon'' \<noteq> [] \<and> strip ''Moon'' \<noteq> []"
    by (simp add: strip_Moon)
  have pg: "page ?up = Inr (?page_content, Inr ''The Moon.'')"
    by simp
  have ps: "[?p1, ?p3] = filter (\<lambda>p. 50 < length p) (split_blank [] ?page_content)"
    by (simp add: newline_def)
  have ne: "[?p1, ?p3] \<noteq> []"
    by simp
  have j: "?p1 @ [newline, newline] @ ?p3 = join [newline, newline] (take 3 [?p1, ?p3])"
    by simp
  have short: "\<not> 1000 < length (?p1 @ [newline, newline] @ ?p3)"
    by simp
  have clean: "clean_content (?p1 @ [newline, newline] @ ?p3)
      = ''The Moon is Earth's only natural satellite. It orbits at 384400 km.  '' @
        ''The usual English proper name is the Moon, with a capital M.''"
    by code_simp
  have inv: "kc_inv (wiki_cache (WikipediaService_init 8))"
    by (rule fresh_inv)
  have miss: "\<not> truthy (fst (KnowledgeCache_get (fst (0, 0)) (snd (0, 0))
      (summary_cache_key ''Moon'' 5) (wiki_cache (WikipediaService_init 8))))"
    by (rule fresh_miss)
  show ?thesis
    using page_summary_extract [OF t inv miss pg ps ne j, where ts = "(0, 0)"]
      short clean by simp
qed

theorem page_summary_cap_counterexample:
  "returned (get_page_summary
      \<lparr>page = Inr (replicate 1001 (CHR ''a''), Inr ''A.''), short = Inr ''A.''\<rparr>
      (0, 0) (0, 0) ''Moon'' 5 (WikipediaService_init 8))
     = Inr (Some (Summary (replicate 1000 (CHR ''a'') @ ''...'')))
   \<and> length (replicate 1000 (CHR ''a'') @ ''...'') = 1003"
proof -
  let ?page_content = "replicate 1001 (CHR ''a'')"
  let ?up = "\<lparr>page = Inr (?page_content, Inr ''A.''), short = Inr ''A.''\<rparr>"
  let ?s = "replicate 1000 (CHR ''a'') @ ''...''"
  have t: "''Moon'' \<noteq> [] \<and> strip ''Moon'' \<noteq> []"
    by (simp add: strip_Moon)
  have "newline \<notin> set ?page_content"
    by (simp add: newline_def)
  then have sp: "split_blank [] ?page_content = [?page_content]"
    by (simp add: split_blank_no_newline)
  have "take 1000 (replicate 1001 (CHR ''a'')) = replicate 1000 (CHR ''a'')"
    by simp
  then have ex: "extract_summary ?page_content = Some ?s"
    by (simp add: extract_summary_def sp)
  have f: "fetch_summary ?up = (Inr ?s, 1)"
    using ex by (intro fetch_summary_extract) simp_all
  have plain: "\<not> isspace c \<and> c \<noteq> CHR ''['' \<and> c \<noteq> CHR ''=''" if "c \<in> set ?s" for c
  proof -
    have "c = CHR ''a'' \<or> c = CHR ''.''"
      using that by auto
    then show ?thesis
      by (auto simp: isspace_def code_def)
  qed
  have clean: "clean_content ?s = ?s"
    by (rule clean_content_plain) (simp, rule plain)
  have "returned (get_page_summary ?up (0, 0) (0, 0) ''Moon'' 5 (WikipediaService_init 8))
      = Inr (Some (Summary (clean_content ?s)))"
    using t fresh_inv fresh_miss f by (rule get_page_summary_fetched(1))
  then show ?thesis
    using clean by simp
qed

lemma no_truthy_stored:
  "map_of (cache c) key = Some e \<Longrightarrow> \<not> truthy (Some (stored e)) \<Longrightarrow> no_truthy key c"
  by (simp add: no_truthy_def)

lemma search_empty_step:
  assumes "query \<noteq> [] \<and> strip query \<noteq> []"
    and "kc_inv (wiki_cache svc)"
    and "no_truthy (search_cache_key (clean_query query) limit) (wiki_cache svc)"
    and "empty_search upstream"
  shows "upstream_calls (search upstream tg ts query limit svc) = 1"
    and "returned (search upstream tg ts query limit svc) = Titles []"
    and "kc_inv (wiki_cache (service (search upstream tg ts query limit svc)))"
    and "map_of (cache (wiki_cache (service (search upstream tg ts query limit svc))))
           (search_cache_key (clean_query query) limit)
         = Some \<lparr>stored = Titles [], expires = fst ts + ttl (wiki_cache svc)\<rparr>"
proof -
  let ?key = "search_cache_key (clean_query query) limit"
  obtain cached c1 where g: "KnowledgeCache_get (fst tg) (snd tg) ?key (wiki_cache svc) = (cached, c1)"
    by (cases "KnowledgeCache_get (fst tg) (snd tg) ?key (wiki_cache svc)")
  have miss: "\<not> truthy cached"
    using get_no_truthy(1) [OF assms(3), of "fst tg" "snd tg"] g by simp
  have "kc_inv (snd (KnowledgeCache_get (fst tg) (snd tg) ?key (wiki_cache svc)))"
    using assms(2) by (rule kc_inv_get)
  then have inv1: "kc_inv c1"
    using g by simp
  have ttl1: "ttl c1 = ttl (wiki_cache svc)"
    using get_ttl [of "fst tg" "snd tg" ?key "wiki_cache svc"] g by simp
  obtain results where up: "upstream = Inr results" "filter_titles [] results = []"
    using assms(4) by (cases upstream) (simp_all add: empty_search_def)
  obtain c2 where c2: "KnowledgeCache_set (fst ts) (snd ts) ?key (Titles []) None c1 = Inr c2"
      "kc_inv c2"
      "map_of (cache c2) ?key
         = Some \<lparr>stored = Titles [], expires = fst ts + ttl_or_default None (ttl c1)\<rparr>"
    using set_stores [OF inv1] by blast
  have r: "search upstream tg ts query limit svc
      = \<lparr>returned = Titles [], upstream_calls = 1, service = svc\<lparr>wiki_cache := c2\<rparr>\<rparr>"
    using assms(1) g miss up c2(1) by (simp add: search_def Let_def)
  show "upstream_calls (search upstream tg ts query limit svc) = 1"
    and "returned (search upstream tg ts query limit svc) = Titles []"
    and "kc_inv (wiki_cache (service (search upstream tg ts query limit svc)))"
    and "map_of (cache (wiki_cache (service (search upstream tg ts query limit svc))))
           (search_cache_key (clean_query query) limit)
         = Some \<lparr>stored = Titles [], expires = fst ts + ttl (wiki_cache svc)\<rparr>"
    using r c2(2,3) ttl1 by (simp_all add: ttl_or_default_def)
qed

lemma search_repeat_empty:
  "query \<noteq> [] \<and> strip query \<noteq> [] \<Longrightarrow> kc_inv (wiki_cache svc) \<Longrightarrow>
   no_truthy (search_cache_key (clean_query query) limit) (wiki_cache svc) \<Longrightarrow>
   \<forall>run \<in> set runs. empty_search (fst run) \<Longrightarrow>
   list_all (\<lambda>r. upstream_calls r = 1 \<and> returned r = Titles []
       \<and> (\<exists>e. map_of (cache (wiki_cache (service r))) (search_cache_key (clean_query query) limit)
               = Some e \<and> stored e = Titles []))
     (search_repeat runs query limit svc)"
proof (induction runs arbitrary: svc)
  case Nil
  then show ?case by simp
next
  case (Cons run runs)
  obtain upstream tg ts where run: "run = (upstream, tg, ts)"
    by (cases run)
  let ?r = "search upstream tg ts query limit svc"
  have e: "empty_search upstream"
    using Cons.prems(4) run by simp
  note step = search_empty_step [OF Cons.prems(1,2,3) e, of tg ts]
  have nt: "no_truthy (search_cache_key (clean_query query) limit) (wiki_cache (service ?r))"
    using step(4) by (rule no_truthy_stored) simp
  have rest: "list_all (\<lambda>r. upstream_calls r = 1 \<and> returned r = Titles []
       \<and> (\<exists>e. map_of (cache (wiki_cache (service r))) (search_cache_key (clean_query query) limit)
               = Some e \<and> stored e = Titles []))
     (search_repeat runs query limit (service ?r))"
    using Cons.IH [OF Cons.prems(1) step(3) nt] Cons.prems(4) by simp
  show ?case
    using run step(1,2,4) rest by (simp add: Let_def)
qed

lemma summary_empty_step:
  assumes "title \<noteq> [] \<and> strip title \<noteq> []"
    and "kc_inv (wiki_cache svc)"
    and "no_truthy (summary_cache_key title sentences) (wiki_cache svc)"
    and "empty_summary up"
  shows "1 \<le> upstream_calls (get_page_summary up tg ts title sentences svc)"
    and "returned (get_page_summary up tg ts title sentences svc) = Inr (Some (Summary []))"
    and "kc_inv (wiki_cache (service (get_page_summary up tg ts title sentences svc)))"
    and "map_of (cache (wiki_cache (service (get_page_summary up tg ts title sentences svc))))
           (summary_cache_key title sentences)
         = Some \<lparr>stored = Summary [], expires = fst ts + 7 * 86400\<rparr>"
proof -
  obtain fetched n where f: "fetch_summary up = (Inr fetched, n)" "clean_content fetched = []"
    using assms(4) by (cases "fetch_summary up"; cases "fst (fetch_summary up)")
      (simp_all add: empty_summary_def)
  have n: "1 \<le> n"
    using f(1) by (auto simp: fetch_summary_def split: sum.splits prod.splits option.splits)
  have miss: "\<not> truthy (fst (KnowledgeCache_get (fst tg) (snd tg)
      (summary_cache_key title sentences) (wiki_cache svc)))"
    using assms(3) by (rule get_no_truthy(1))
  note step = get_page_summary_fetched [OF assms(1,2) miss f(1), of ts]
  show "1 \<le> upstream_calls (get_page_summary up tg ts title sentences svc)"
    and "returned (get_page_summary up tg ts title sentences svc) = Inr (Some (Summary []))"
    and "kc_inv (wiki_cache (service (get_page_summary up tg ts title sentences svc)))"
    and "map_of (cache (wiki_cache (service (get_page_summary up tg ts title sentences svc))))
           (summary_cache_key title sentences)
         = Some \<lparr>stored = Summary [], expires = fst ts + 7 * 86400\<rparr>"
    using step n f(2) by simp_all
qed

lemma summary_repeat_empty:
  "title \<noteq> [] \<and> strip title \<noteq> [] \<Longrightarrow> kc_inv (wiki_cache svc) \<Longrightarrow>
   no_truthy (summary_cache_key title sentences) (wiki_cache svc) \<Longrightarrow>
   \<forall>run \<in> set runs. empty_summary (fst run) \<Longrightarrow>
   list_all (\<lambda>r. 1 \<le> upstream_calls r \<and> returned r = Inr (Some (Summary []))
       \<and> (\<exists>e. map_of (cache (wiki_cache (service r))) (summary_cache_key title sentences)
               = Some e \<and> stored e = Summary []))
     (summary_repeat runs title sentences svc)"
proof (induction runs arbitrary: svc)
  case Nil
  then show ?case by simp
next
  case (Cons run runs)
  obtain up tg ts where run: "run = (up, tg, ts)"
    by (cases run)
  let ?r = "get_page_summary up tg ts title sentences svc"
  have e: "empty_summary up"
    using Cons.prems(4) run by simp
  note step = summary_empty_step [OF Cons.prems(1,2,3) e, of tg ts]
  have nt: "no_truthy (summary_cache_key title sentences) (wiki_cache (service ?r))"
    using step(4) by (rule no_truthy_stored) simp
  have rest: "list_all (\<lambda>r. 1 \<le> upstream_calls r \<and> returned r = Inr (Some (Summary []))
       \<and> (\<exists>e. map_of (cache (wiki_cache (service r))) (summary_cache_key title sentences)
               = Some e \<and> stored e = Summary []))
     (summary_repeat runs title sentences (service ?r))"
    using Cons.IH [OF Cons.prems(1) step(3) nt] Cons.prems(4) by simp
  show ?case
    using run step(1,2,4) rest by (simp add: Let_def)
qed

text \<open>
  C10. Take a service whose cache holds no true value under the key of a query (of a
  page), as a fresh one does, and any run of repeated searches (summary requests) for
  it in which every upstream search yields no title to keep (every fetch yields an
  empty text). Then every call of the run makes its upstream call and returns the empty
  result, although after each call the cache holds the empty list (the empty string)
  under that key: the truth tests on the cached value take it for a miss.
\<close>

theorem empty_results_never_hit:
  assumes "kc_inv (wiki_cache svc)"
    and "query \<noteq> [] \<and> strip query \<noteq> []"
    and "no_truthy (search_cache_key (clean_query query) limit) (wiki_cache svc)"
    and "\<forall>run \<in> set searches. empty_search (fst run)"
    and "title \<noteq> [] \<and> strip title \<noteq> []"
    and "no_truthy (summary_cache_key title sentences) (wiki_cache svc)"
    and "\<forall>run \<in> set fetches. empty_summary (fst run)"
  shows "list_all (\<lambda>r. upstream_calls r = 1 \<and> returned r = Titles []
             \<and> (\<exists>e. map_of (cache (wiki_cache (service r)))
                        (search_cache_key (clean_query query) limit) = Some e
                     \<and> stored e = Titles []))
           (search_repeat searches query limit svc)
       \<and> list_all (\<lambda>r. 1 \<le> upstream_calls r \<and> returned r = Inr (Some (Summary []))
             \<and> (\<exists>e. map_of (cache (wiki_cache (service r)))
                        (summary_cache_key title sentences) = Some e
                     \<and> stored e = Summary []))
           (summary_repeat fetches title sentences svc)"
  using search_repeat_empty [OF assms(2,1,3,4)] summary_repeat_empty [OF assms(5,1,6,7)]
  by simp

lemma lower_Moon_disambiguation:
  "lower ''Moon (disambiguation)'' = ''moon (disambiguation)''"
  by (simp add: lower_def lower_char_def upper_letters_def lower_letters_def)

theorem empty_results_never_hit_witness:
  "list_all (\<lambda>r. upstream_calls r = 1 \<and> returned r = Titles []
             \<and> (\<exists>e. map_of (cache (wiki_cache (service r)))
                        (search_cache_key (clean_query ''Moon'') 5) = Some e
                     \<and> stored e = Titles []))
      (search_repeat [(Inr [], (0, 0), (0, 0)), (Inr [''Moon (disambiguation)''], (1, 1), (1, 1))]
         ''Moon'' 5 (WikipediaService_init 8))
   \<and> list_all (\<lambda>r. 1 \<le> upstream_calls r \<and> returned r = Inr (Some (Summary []))
             \<and> (\<exists>e. map_of (cache (wiki_cache (service r)))
                        (summary_cache_key ''Moon'' 5) = Some e
                     \<and> stored e = Summary []))
      (summary_repeat [(\<lparr>page = Inr (''A stub.'', Inr []), short = Inr []\<rparr>, (0, 0), (0, 0)),
                       (\<lparr>page = Inr (''A stub.'', Inr []), short = Inr []\<rparr>, (1, 1), (1, 1))]
         ''Moon'' 5 (WikipediaService_init 8))"
proof -
  have inv: "kc_inv (wiki_cache (WikipediaService_init 8))"
    by (rule fresh_inv)
  have nb: "''Moon'' \<noteq> [] \<and> strip ''Moon'' \<noteq> []"
    by (simp add: strip_Moon)
  have nt1: "no_truthy (search_cache_key (clean_query ''Moon'') 5) (wiki_cache (WikipediaService_init 8))"
    by (simp add: no_truthy_def WikipediaService_init_def KnowledgeCache_init_def)
  have nt2: "no_truthy (summary_cache_key ''Moon'' 5) (wiki_cache (WikipediaService_init 8))"
    by (simp add: no_truthy_def WikipediaService_init_def KnowledgeCache_init_def)
  have "contains ''(disambiguation)'' (lower ''Moon (disambiguation)'')"
    unfolding lower_Moon_disambiguation by (simp add: startswith_def)
  then have e1: "\<forall>run \<in> set [(Inr [], (0, 0), (0, 0)),
        (Inr [''Moon (disambiguation)''], (1::real, 1::real), (1::real, 1::real))].
      empty_search (fst run)"
    by (simp add: empty_search_def)
  have "extract_summary ''A stub.'' = None"
    by (simp add: extract_summary_def newline_def)
  moreover have "clean_content [] = []"
    by (simp add: clean_content_def strip_def)
  ultimately have "empty_summary \<lparr>page = Inr (''A stub.'', Inr []), short = Inr []\<rparr>"
    by (simp add: empty_summary_def fetch_summary_def)
  then have e2: "\<forall>run \<in> set [(\<lparr>page = Inr (''A stub.'', Inr []), short = Inr []\<rparr>, (0, 0), (0, 0)),
        (\<lparr>page = Inr (''A stub.'', Inr []), short = Inr []\<rparr>, (1::real, 1::real), (1::real, 1::real))].
      empty_summary (fst run)"
    by simp
  show ?thesis
    by (rule empty_results_never_hit [OF inv nb nt1 e1 nb nt2 e2])
qed

section \<open>Properties of the response orchestrator\<close>

lemma post_process_nonempty: "post_process_response response message title \<noteq> []"
  by (simp add: post_process_response_def)

lemma TTLCache_get_cases:
  "TTLCache_get now key c = (Some v, c') \<longleftrightarrow>
     (\<exists>e. map_of (entries c) key = Some e \<and> now < expires e \<and> v = stored e \<and> c' = c)"
  by (auto simp: TTLCache_get_def split: option.splits)

lemma process_message_hit:
  assumes "TTLCache_get t_get (normalize_message message) (query_cache m) = (Some cached, qc)"
    and "cached \<noteq> []"
  shows "process_message knowledge llm t_get t_set message m =
     \<lparr>reply = cached, llm_calls = 0,
      manager = m\<lparr>history := history m @
        [\<lparr>role = ''user'', content = message\<rparr>, \<lparr>role = ''assistant'', content = cached\<rparr>]\<rparr>\<rparr>"
proof -
  have "qc = query_cache m"
    using assms(1) by (auto simp: TTLCache_get_cases)
  then show ?thesis
    using assms by (simp add: process_message_def Let_def)
qed

lemma process_miss_caches:
  assumes "knowledge = Inr k \<or> knowledge = Inl TimeoutError"
  shows "\<exists>e. map_of (entries (query_cache (manager
            (process_miss knowledge llm t_set message key m)))) key = Some e
      \<and> stored e = reply (process_miss knowledge llm t_set message key m)
      \<and> stored e \<noteq> []
      \<and> expires e = t_set + knowledge_ttl (analyze_question_type key)"
proof -
  have pos: "ttl_or_default (Some (knowledge_ttl q)) d = knowledge_ttl q" for q d
    by (simp add: ttl_or_default_def knowledge_ttl_def)
  show ?thesis
    using assms
    by (auto simp: process_miss_def Let_def TTLCache_set_def post_process_nonempty pos
        split: prod.splits)
qed

lemma process_message_caches:
  assumes "knowledge = Inr k \<or> knowledge = Inl TimeoutError"
  shows "\<exists>e. map_of (entries (query_cache (manager
            (process_message knowledge llm t_get t_set message m))))
          (normalize_message message) = Some e
      \<and> stored e = reply (process_message knowledge llm t_get t_set message m)
      \<and> stored e \<noteq> []"
proof -
  let ?key = "normalize_message message"
  obtain cached qc where g: "TTLCache_get t_get ?key (query_cache m) = (cached, qc)"
    by (cases "TTLCache_get t_get ?key (query_cache m)")
  show ?thesis
  proof (cases "\<exists>s. cached = Some s \<and> s \<noteq> []")
    case True
    then obtain s where s: "cached = Some s" "s \<noteq> []"
      by blast
    then obtain e where e: "map_of (entries (query_cache m)) ?key = Some e" "s = stored e"
      using g by (auto simp: TTLCache_get_cases)
    have "process_message knowledge llm t_get t_set message m =
       \<lparr>reply = s, llm_calls = 0,
        manager = m\<lparr>history := history m @
          [\<lparr>role = ''user'', content = message\<rparr>, \<lparr>role = ''assistant'', content = s\<rparr>]\<rparr>\<rparr>"
      using g s by (intro process_message_hit) simp_all
    then show ?thesis
      using e s(2) by simp
  next
    case False
    then have "process_message knowledge llm t_get t_set message m
        = process_miss knowledge llm t_set message ?key (m\<lparr>query_cache := qc\<rparr>)"
      using g by (auto simp: process_message_def Let_def split: option.splits)
    then show ?thesis
      using process_miss_caches [OF assms, of llm t_set message ?key "m\<lparr>query_cache := qc\<rparr>"]
      by auto
  qed
qed

text \<open>
  C3. When the lookup of the normalized message in the session cache returns a
  non-empty text, \<open>process_message\<close> returns that text, makes no call of the generation
  client, and appends the user turn and the assistant turn with the cached text to the
  history. After a message has been processed (the retrieval returned or timed out),
  the session cache holds the text returned under the normalized message, and
  processing any message with the same normalized form before that entry expires
  returns the same text, makes no call of the generation client, and appends both turns.
\<close>

theorem process_message_cache_hit:
  assumes "knowledge1 = Inr k \<or> knowledge1 = Inl TimeoutError"
    and "r1 = process_message knowledge1 llm1 t1 t1' message1 m"
    and "normalize_message message2 = normalize_message message1"
  shows "(\<forall>cached qc. TTLCache_get t_get (normalize_message message) (query_cache m0) = (Some cached, qc)
            \<and> cached \<noteq> [] \<longrightarrow>
            process_message knowledge llm t_get t_set message m0 =
              \<lparr>reply = cached, llm_calls = 0,
               manager = m0\<lparr>history := history m0 @
                 [\<lparr>role = ''user'', content = message\<rparr>,
                  \<lparr>role = ''assistant'', content = cached\<rparr>]\<rparr>\<rparr>)
       \<and> (\<exists>e. map_of (entries (query_cache (manager r1))) (normalize_message message1) = Some e
             \<and> stored e = reply r1
             \<and> (\<forall>t2 t2' knowledge2 llm2. t2 < expires e \<longrightarrow>
                   process_message knowledge2 llm2 t2 t2' message2 (manager r1) =
                     \<lparr>reply = reply r1, llm_calls = 0,
                      manager = (manager r1)\<lparr>history := history (manager r1) @
                        [\<lparr>role = ''user'', content = message2\<rparr>,
                         \<lparr>role = ''assistant'', content = reply r1\<rparr>]\<rparr>\<rparr>))"
proof -
  have hit: "process_message knowledge llm t_get t_set message m0 =
              \<lparr>reply = cached, llm_calls = 0,
               manager = m0\<lparr>history := history m0 @
                 [\<lparr>role = ''user'', content = message\<rparr>,
                  \<lparr>role = ''assistant'', content = cached\<rparr>]\<rparr>\<rparr>"
    if "TTLCache_get t_get (normalize_message message) (query_cache m0) = (Some cached, qc)"
      "cached \<noteq> []" for cached qc
    using that by (rule process_message_hit)
  obtain e where e: "map_of (entries (query_cache (manager r1))) (normalize_message message1) = Some e"
      "stored e = reply r1" "stored e \<noteq> []"
    using process_message_caches [OF assms(1)] assms(2) by blast
  have again: "process_message knowledge2 llm2 t2 t2' message2 (manager r1) =
       \<lparr>reply = reply r1, llm_calls = 0,
        manager = (manager r1)\<lparr>history := history (manager r1) @
          [\<lparr>role = ''user'', content = message2\<rparr>,
           \<lparr>role = ''assistant'', content = reply r1\<rparr>]\<rparr>\<rparr>"
    if "t2 < expires e" for t2 t2' knowledge2 llm2
  proof -
    have "TTLCache_get t2 (normalize_message message2) (query_cache (manager r1))
        = (Some (reply r1), query_cache (manager r1))"
      using e that assms(3) by (simp add: TTLCache_get_cases)
    moreover have "reply r1 \<noteq> []"
      using e by simp
    ultimately show ?thesis
      by (rule process_message_hit)
  qed
  show ?thesis
    using hit e(1,2) again by blast
qed

lemma normalize_What_is_AI: "normalize_message ''What is AI?'' = ''what is ai?''"
  by code_simp

theorem process_message_cache_hit_witness:
  "reply (process_message (Inr ([], [])) (\<lambda>n message chat_history preamble. Inr ''AI is the study of machines that act intelligently.'')
            0 1 ''What is AI?'' (ChatManager_init []))
     = ''AI is the study of machines that act intelligently.''
   \<and> process_message (Inl TimeoutError) (\<lambda>n message chat_history preamble. Inl TimeoutError)
        100 101 ''WHAT   is AI?''
        (manager (process_message (Inr ([], [])) (\<lambda>n message chat_history preamble. Inr ''AI is the study of machines that act intelligently.'')
            0 1 ''What is AI?'' (ChatManager_init [])))
     = \<lparr>reply = ''AI is the study of machines that act intelligently.'', llm_calls = 0,
        manager =
          \<lparr>history =
             [\<lparr>role = ''user'', content = ''What is AI?''\<rparr>,
              \<lparr>role = ''assistant'', content = ''AI is the study of machines that act intelligently.''\<rparr>,
              \<lparr>role = ''user'', content = ''WHAT   is AI?''\<rparr>,
              \<lparr>role = ''assistant'', content = ''AI is the study of machines that act intelligently.''\<rparr>],
           query_cache =
             \<lparr>entries = [(''what is ai?'',
                 \<lparr>stored = ''AI is the study of machines that act intelligently.'', expires = 86401\<rparr>)],
              default_ttl = 3600\<rparr>,
           fallback_knowledge = []\<rparr>\<rparr>"
proof -
  let ?answer = "''AI is the study of machines that act intelligently.''"
  let ?llm = "(\<lambda>n message chat_history preamble. Inr ?answer) :: generation"
  define r1 where "r1 = process_message (Inr ([], [])) ?llm 0 1 ''What is AI?'' (ChatManager_init [])"
  have k: "(Inr ([], []) :: py_error + knowledge) = Inr ([], []) \<or> (Inr ([], []) :: py_error + knowledge) = Inl TimeoutError"
    by simp
  have norm: "normalize_message ''WHAT   is AI?'' = normalize_message ''What is AI?''"
    by code_simp
  have run: "r1 = \<lparr>reply = ?answer, llm_calls = 1,
        manager =
          \<lparr>history =
             [\<lparr>role = ''user'', content = ''What is AI?''\<rparr>,
              \<lparr>role = ''assistant'', content = ?answer\<rparr>],
           query_cache =
             \<lparr>entries = [(''what is ai?'', \<lparr>stored = ?answer, expires = 86401\<rparr>)],
              default_ttl = 3600\<rparr>,
           fallback_knowledge = []\<rparr>\<rparr>"
    unfolding r1_def by code_simp
  obtain e where e: "map_of (entries (query_cache (manager r1))) (normalize_message ''What is AI?'') = Some e"
    and again: "\<forall>t2 t2' knowledge2 llm2. t2 < expires e \<longrightarrow>
       process_message knowledge2 llm2 t2 t2' ''WHAT   is AI?'' (manager r1) =
         \<lparr>reply = reply r1, llm_calls = 0,
          manager = (manager r1)\<lparr>history := history (manager r1) @
            [\<lparr>role = ''user'', content = ''WHAT   is AI?''\<rparr>,
             \<lparr>role = ''assistant'', content = reply r1\<rparr>]\<rparr>\<rparr>"
    using process_message_cache_hit [OF k r1_def norm] by blast
  have "expires e = 86401"
    using e unfolding run normalize_What_is_AI by auto
  then have "(100::real) < expires e"
    by simp
  then have "process_message (Inl TimeoutError) (\<lambda>n message chat_history preamble. Inl TimeoutError)
        100 101 ''WHAT   is AI?'' (manager r1) =
         \<lparr>reply = reply r1, llm_calls = 0,
          manager = (manager r1)\<lparr>history := history (manager r1) @
            [\<lparr>role = ''user'', content = ''WHAT   is AI?''\<rparr>,
             \<lparr>role = ''assistant'', content = reply r1\<rparr>]\<rparr>\<rparr>"
    using again by blast
  then have second: "process_message (Inl TimeoutError) (\<lambda>n message chat_history preamble. Inl TimeoutError)
        100 101 ''WHAT   is AI?'' (manager r1) =
     \<lparr>reply = ?answer, llm_calls = 0,
        manager =
          \<lparr>history =
             [\<lparr>role = ''user'', content = ''What is AI?''\<rparr>,
              \<lparr>role = ''assistant'', content = ?answer\<rparr>,
              \<lparr>role = ''user'', content = ''WHAT   is AI?''\<rparr>,
              \<lparr>role = ''assistant'', content = ?answer\<rparr>],
           query_cache =
             \<lparr>entries = [(''what is ai?'', \<lparr>stored = ?answer, expires = 86401\<rparr>)],
              default_ttl = 3600\<rparr>,
           fallback_knowledge = []\<rparr>\<rparr>"
    unfolding run by simp
  have first: "reply r1 = ?answer"
    unfolding run by simp
  show ?thesis
    using first second unfolding r1_def by simp
qed

end
